theory Spec2Isabelle
  imports Main
begin

section \<open>Dirty-diff gutter decorations (dirtydiffDecorator.ts)\<close>

subsection \<open>Data: changes, ranges, decoration options\<close>

text \<open>
  \<open>common.IChange\<close>: the four line numbers of one change reported by the diff service.
  Line numbers are JavaScript numbers holding integers; \<open>0\<close> is the sentinel.
\<close>

record IChange =
  originalStartLineNumber :: int
  originalEndLineNumber :: int
  modifiedStartLineNumber :: int
  modifiedEndLineNumber :: int

text \<open>\<open>common.IRange\<close>, as the object literals of \<open>changesToDecorations\<close> build it.\<close>

record IRange =
  startLineNumber :: int
  startColumn :: int
  endLineNumber :: int
  endColumn :: int

datatype OverviewRulerLane = Left | Center | Right | Full

record OverviewRulerOptions =
  color :: string
  darkColor :: string
  position :: OverviewRulerLane

text \<open>The object handed to \<open>ModelDecorationOptions.register\<close>.\<close>

record ModelDecorationOptions =
  linesDecorationsClassName :: string
  isWholeLine :: bool
  overviewRuler :: OverviewRulerOptions

definition MODIFIED_DECORATION_OPTIONS :: ModelDecorationOptions where
  "MODIFIED_DECORATION_OPTIONS =
     \<lparr>linesDecorationsClassName = ''dirty-diff-modified-glyph'',
      isWholeLine = True,
      overviewRuler = \<lparr>color = ''rgba(0, 122, 204, 0.6)'',
                       darkColor = ''rgba(0, 122, 204, 0.6)'',
                       position = Left\<rparr>\<rparr>"

definition ADDED_DECORATION_OPTIONS :: ModelDecorationOptions where
  "ADDED_DECORATION_OPTIONS =
     \<lparr>linesDecorationsClassName = ''dirty-diff-added-glyph'',
      isWholeLine = True,
      overviewRuler = \<lparr>color = ''rgba(0, 122, 204, 0.6)'',
                       darkColor = ''rgba(0, 122, 204, 0.6)'',
                       position = Left\<rparr>\<rparr>"

definition DELETED_DECORATION_OPTIONS :: ModelDecorationOptions where
  "DELETED_DECORATION_OPTIONS =
     \<lparr>linesDecorationsClassName = ''dirty-diff-deleted-glyph'',
      isWholeLine = True,
      overviewRuler = \<lparr>color = ''rgba(0, 122, 204, 0.6)'',
                       darkColor = ''rgba(0, 122, 204, 0.6)'',
                       position = Left\<rparr>\<rparr>"

definition HIDDEN_DECORATION_OPTIONS :: ModelDecorationOptions where
  "HIDDEN_DECORATION_OPTIONS =
     \<lparr>linesDecorationsClassName = ''dirty-diff-hidden-glyph'',
      isWholeLine = True,
      overviewRuler = \<lparr>color = ''rgba(0, 0, 0, 0)'',
                       darkColor = ''rgba(0, 0, 0, 0)'',
                       position = Left\<rparr>\<rparr>"

text \<open>\<open>common.IModelDeltaDecoration\<close>: a range and the options that style it.\<close>

record IModelDeltaDecoration =
  range' :: IRange
  options :: ModelDecorationOptions

subsection \<open>The mapper\<close>

text \<open>
  JavaScript's \<open>a || b\<close> on numbers: \<open>b\<close> when \<open>a\<close> is falsy, which for an integer
  means \<open>a = 0\<close>.
\<close>

definition orElse :: "int \<Rightarrow> int \<Rightarrow> int" where
  "orElse a b = (if a = 0 then b else a)"

text \<open>The callback of \<open>diff.map\<close> in \<open>changesToDecorations\<close>, branch by branch.\<close>

definition changeToDecoration :: "bool \<Rightarrow> IChange \<Rightarrow> IModelDeltaDecoration" where
  "changeToDecoration hidden change =
     (if hidden then
        \<lparr>range' = \<lparr>startLineNumber = 0, startColumn = 1,
                    endLineNumber = 0, endColumn = 0\<rparr>,
         options = HIDDEN_DECORATION_OPTIONS\<rparr>
      else
        let startLineNumber = modifiedStartLineNumber change;
            endLineNumber = orElse (modifiedEndLineNumber change) startLineNumber
        in if originalEndLineNumber change = 0 then
             \<lparr>range' = \<lparr>startLineNumber = startLineNumber, startColumn = 1,
                         endLineNumber = endLineNumber, endColumn = 1\<rparr>,
              options = ADDED_DECORATION_OPTIONS\<rparr>
           else if modifiedEndLineNumber change = 0 then
             \<lparr>range' = \<lparr>startLineNumber = startLineNumber, startColumn = 1,
                         endLineNumber = startLineNumber, endColumn = 1\<rparr>,
              options = DELETED_DECORATION_OPTIONS\<rparr>
           else
             \<lparr>range' = \<lparr>startLineNumber = startLineNumber, startColumn = 1,
                         endLineNumber = endLineNumber, endColumn = 1\<rparr>,
              options = MODIFIED_DECORATION_OPTIONS\<rparr>)"

definition changesToDecorations :: "IChange list \<Rightarrow> bool \<Rightarrow> IModelDeltaDecoration list" where
  "changesToDecorations diff hidden = map (changeToDecoration hidden) diff"

text \<open>The whole-line span \<open>[a, b]\<close> that the visible decorations carry.\<close>

definition lineSpan :: "int \<Rightarrow> int \<Rightarrow> IRange" where
  "lineSpan a b = \<lparr>startLineNumber = a, startColumn = 1, endLineNumber = b, endColumn = 1\<rparr>"


subsection \<open>Text models and the services the decorator talks to\<close>

type_synonym URI = string

text \<open>
  Objects are compared by reference in the source (\<open>p.model !== m\<close>,
  \<open>a.indexOf(m, i + 1)\<close>), so a model is named by its reference and its fields
  live in a store.
\<close>

type_synonym ModelRef = nat
type_synonym DecoratorRef = nat
type_synonym DecorationId = nat
type_synonym PromiseRef = nat

datatype error = TypeError | ModelIsDisposed | Rejected

text \<open>
  The part of \<open>common.IModel\<close> the file reads: \<open>id\<close>, \<open>uri\<close>, \<open>isDisposed()\<close>,
  \<open>getValueLength()\<close>, and the decorations \<open>deltaDecorations\<close> maintains.
\<close>

record IModel =
  model_id :: string
  model_uri :: "URI option"
  isDisposed :: bool
  getValueLength :: nat
  modelDecorations :: "(DecorationId \<times> IModelDeltaDecoration) list"
  lastDecorationId :: nat

text \<open>
  Modelled from the spec: \<open>IModel.deltaDecorations\<close> of the editor (section 6,
  \<open>replaceDecorations(oldIds, newSpecs) -> newIds\<close>, "replacing the whole set
  atomically") is not part of this file. The old ids are removed, every new
  decoration gets an id above every id the model holds or has handed out, and the new
  ids are returned in the order of the new decorations. A disposed model rejects the
  call, which is why \<open>dispose\<close> and the completion handler test \<open>isDisposed()\<close>
  first.
\<close>

definition deltaDecorations ::
  "IModel \<Rightarrow> DecorationId list \<Rightarrow> IModelDeltaDecoration list \<Rightarrow> error + (DecorationId list \<times> IModel)" where
  "deltaDecorations m oldDecorations newDecorations =
     (if isDisposed m then Inl ModelIsDisposed
      else
        let base = fold max (map fst (modelDecorations m)) (lastDecorationId m);
            ids = map (\<lambda>i. base + Suc i) [0..<length newDecorations];
            kept = filter (\<lambda>(i, d). i \<notin> set oldDecorations) (modelDecorations m)
        in Inr (ids, m\<lparr>modelDecorations := kept @ zip ids newDecorations,
                        lastDecorationId := base + length newDecorations\<rparr>))"

text \<open>The handles the decorator collects in \<open>toDispose\<close>.\<close>

datatype IDisposable =
    ContentSubscription ModelRef
  | ProviderSubscription
  | ModelReferenceHandle ModelRef
  | EditorsChangedSubscription

text \<open>Calls that leave the decorator: the observable effects.\<close>

datatype Call =
    DeltaDecorations ModelRef "DecorationId list" "IModelDeltaDecoration list"
  | GetOriginalResource nat URI
  | CreateModelReference URI
  | ComputeDirtyDiff URI "URI option" bool
  | DisposeHandle IDisposable

record World =
  modelOf :: "ModelRef \<Rightarrow> IModel"
  activeProvider :: "nat option"
  showChangesInGutter :: bool
  calls :: "Call list"
  nextPromise :: PromiseRef
  now :: nat

text \<open>
  Modelled from the spec: \<open>dispose\<close> of \<open>vs/base/common/lifecycle\<close> on an array is
  not part of this file. It releases every handle of the list and returns the empty
  list that \<open>this.toDispose = dispose(this.toDispose)\<close> stores (section 4.4,
  "unsubscribe all event subscriptions"; section 9, "a list of handles released
  exactly once at disposal").
\<close>

definition disposeAll :: "IDisposable list \<Rightarrow> World \<Rightarrow> IDisposable list \<times> World" where
  "disposeAll ds w = ([], w\<lparr>calls := calls w @ map DisposeHandle ds\<rparr>)"

subsection \<open>The throttle\<close>

text \<open>
  Modelled from the spec: \<open>ThrottledDelayer\<close> of \<open>vs/base/common/async\<close> is not part
  of this file. Section 4.1: \<open>trigger(operation)\<close> schedules the operation; a
  trigger before the scheduled run has started replaces the operation and only the
  latest one runs; executions are at least the interval apart; \<open>cancel()\<close> drops the
  pending run. Time is a clock in milliseconds, and a run is due one interval after the
  latest trigger. \<open>trigger\<close> returns the promise of the pending run, the same promise
  to every caller until the run starts, so whatever the callers attach to it runs when
  that one run completes. \<open>timeout\<close> is the moment the pending run is due, \<open>task\<close> the
  operation supplied last, \<open>waiting\<close> the number of triggers that hold the promise of
  the pending run, \<open>started\<close> the moments at which runs have started, newest first.
\<close>

record 'op ThrottledDelayer =
  defaultDelay :: nat
  timeout :: "nat option"
  task :: "'op option"
  waiting :: nat
  started :: "nat list"

definition newThrottledDelayer :: "nat \<Rightarrow> 'op ThrottledDelayer" where
  "newThrottledDelayer delay =
     \<lparr>defaultDelay = delay, timeout = None, task = None, waiting = 0, started = []\<rparr>"

definition trigger :: "'op ThrottledDelayer \<Rightarrow> 'op \<Rightarrow> nat \<Rightarrow> 'op ThrottledDelayer" where
  "trigger d operation t =
     d\<lparr>timeout := Some (t + defaultDelay d), task := Some operation, waiting := Suc (waiting d)\<rparr>"

definition cancel :: "'op ThrottledDelayer \<Rightarrow> 'op ThrottledDelayer" where
  "cancel d = d\<lparr>timeout := None, task := None, waiting := 0\<rparr>"


subsection \<open>DirtyDiffModelDecorator\<close>

text \<open>
  The operation handed to the throttle is always the closure \<open>() => this.diff()\<close>; it
  reads the decorator and the buffer when it runs.
\<close>

datatype Operation = DiffTask

record DirtyDiffModelDecorator =
  model :: "ModelRef option"
  uri :: URI
  decorations :: "DecorationId list option"
  baselineModel :: "ModelRef option"
  diffDelayer :: "Operation ThrottledDelayer option"
  originalURIPromise :: "PromiseRef option"
  toDispose :: "IDisposable list"

type_synonym Outcome = "error option \<times> DirtyDiffModelDecorator \<times> World"

text \<open>
  \<open>triggerDiff\<close>, lines 102 to 109: nothing without a throttle, else the task is
  handed to the throttle and the completion handler is attached to the promise that
  \<open>trigger\<close> returns, once per call. The handler itself, lines 109 to 122, is
  \<open>onDiff\<close>.
\<close>

definition triggerDiff :: "DirtyDiffModelDecorator \<Rightarrow> World \<Rightarrow> DirtyDiffModelDecorator \<times> World" where
  "triggerDiff c w =
     (case diffDelayer c of
        None \<Rightarrow> (c, w)
      | Some d \<Rightarrow> (c\<lparr>diffDelayer := Some (trigger d DiffTask (now w))\<rparr>, w))"

text \<open>
  The handler of lines 109 to 122. \<open>diff\<close> is \<open>None\<close> for a null or undefined
  result (\<open>diff || []\<close>). The first component of the outcome is the exception, if one
  is thrown; the state is the one at that moment. Handing \<open>this.decorations\<close> to the
  decoration API while it is null counts as a TypeError.
\<close>

definition onDiff :: "DirtyDiffModelDecorator \<Rightarrow> World \<Rightarrow> IChange list option \<Rightarrow> Outcome" where
  "onDiff c w diff =
     (case model c of
        None \<Rightarrow> (None, c, w)
      | Some m \<Rightarrow>
          if isDisposed (modelOf w m) then (None, c, w)
          else
            (case baselineModel c of
               None \<Rightarrow> (None, c, w)
             | Some b \<Rightarrow>
                 if isDisposed (modelOf w b) then (None, c, w)
                 else
                   let diff1 = (if getValueLength (modelOf w b) = 0 then Some [] else diff);
                       hiddenDecorations = (\<not> showChangesInGutter w);
                       newDecorations =
                         changesToDecorations (case diff1 of None \<Rightarrow> [] | Some d \<Rightarrow> d)
                           hiddenDecorations
                   in (case decorations c of
                         None \<Rightarrow> (Some TypeError, c, w)
                       | Some old \<Rightarrow>
                           (case deltaDecorations (modelOf w m) old newDecorations of
                              Inl e \<Rightarrow> (Some e, c, w)
                            | Inr (ids, m') \<Rightarrow>
                                (None, c\<lparr>decorations := Some ids\<rparr>,
                                 w\<lparr>modelOf := (modelOf w)(m := m'),
                                   calls := calls w @ [DeltaDecorations m old newDecorations]\<rparr>)))))"

text \<open>
  \<open>getOriginalURIPromise\<close>, lines 135 to 166, up to its \<open>return\<close>. The three ways it
  returns: the cached promise itself, a promise already completed with null when
  there is no provider, or \<open>always(...)\<close> around a promise just created and cached.
\<close>

datatype URIPromise = Cached PromiseRef | Completed "URI option" | Always PromiseRef

definition getOriginalURIPromise ::
  "DirtyDiffModelDecorator \<Rightarrow> World \<Rightarrow> URIPromise \<times> DirtyDiffModelDecorator \<times> World" where
  "getOriginalURIPromise c w =
     (case originalURIPromise c of
        Some p \<Rightarrow> (Cached p, c, w)
      | None \<Rightarrow>
          (case activeProvider w of
             None \<Rightarrow> (Completed None, c, w)
           | Some provider \<Rightarrow>
               let p = nextPromise w
               in (Always p, c\<lparr>originalURIPromise := Some p\<rparr>,
                   w\<lparr>calls := calls w @ [GetOriginalResource provider (uri c)],
                     nextPromise := Suc p\<rparr>)))"

text \<open>
  The callback of lines 147 to 161, first half: a null origin completes the promise
  with null, any other asks the resolver service for the model.
\<close>

definition onOriginalResource :: "World \<Rightarrow> URI option \<Rightarrow> bool \<times> World" where
  "onOriginalResource w originalUri =
     (case originalUri of
        None \<Rightarrow> (False, w)
      | Some u \<Rightarrow> (True, w\<lparr>calls := calls w @ [CreateModelReference u]\<rparr>))"

text \<open>The callback of lines 153 to 160; \<open>ref\<close> is \<open>ref.object.textEditorModel\<close>.\<close>

definition onModelReference :: "DirtyDiffModelDecorator \<Rightarrow> ModelRef \<Rightarrow> DirtyDiffModelDecorator" where
  "onModelReference c ref =
     c\<lparr>baselineModel := Some ref,
       toDispose := toDispose c @ [ModelReferenceHandle ref, ContentSubscription ref]\<rparr>"

text \<open>
  Modelled from the spec: \<open>always\<close> of \<open>vs/base/common/async\<close> is not part of this
  file; it runs its callback when the promise settles, completed or failed (section
  4.2, step 5). The callback is lines 163 to 165.
\<close>

definition onOriginalURISettled :: "DirtyDiffModelDecorator \<Rightarrow> DirtyDiffModelDecorator" where
  "onOriginalURISettled c = c\<lparr>originalURIPromise := None\<rparr>"

text \<open>
  The callback of \<open>diff\<close>, lines 126 to 132: \<open>Inl\<close> is the immediate empty list,
  \<open>Inr\<close> the world after the call of the diff service, whose answer comes later.
\<close>

definition onOriginalURI ::
  "DirtyDiffModelDecorator \<Rightarrow> World \<Rightarrow> URI option \<Rightarrow> IChange list + World" where
  "onOriginalURI c w originalURI =
     (case model c of
        None \<Rightarrow> Inl []
      | Some m \<Rightarrow>
          if isDisposed (modelOf w m) then Inl []
          else
            (case originalURI of
               None \<Rightarrow> Inl []
             | Some u \<Rightarrow>
                 Inr (w\<lparr>calls := calls w @ [ComputeDirtyDiff u (model_uri (modelOf w m)) True]\<rparr>)))"

text \<open>
  \<open>dispose\<close>, lines 216 to 231, statement by statement. The throttle is cancelled and
  the field set to null, so the cancelled throttle is gone with the field.
\<close>

definition dispose :: "DirtyDiffModelDecorator \<Rightarrow> World \<Rightarrow> Outcome" where
  "dispose c w =
     (let (ds, w1) = disposeAll (toDispose c) w;
          c1 = c\<lparr>toDispose := ds\<rparr>;
          r = (case model c1 of
                 None \<Rightarrow> Inr w1
               | Some m \<Rightarrow>
                   if isDisposed (modelOf w1 m) then Inr w1
                   else
                     (case decorations c1 of
                        None \<Rightarrow> Inl TypeError
                      | Some old \<Rightarrow>
                          (case deltaDecorations (modelOf w1 m) old [] of
                             Inl e \<Rightarrow> Inl e
                           | Inr (ids, m') \<Rightarrow>
                               Inr (w1\<lparr>modelOf := (modelOf w1)(m := m'),
                                       calls := calls w1 @ [DeltaDecorations m old []]\<rparr>))))
      in case r of
           Inl e \<Rightarrow> (Some e, c1, w1)
         | Inr w2 \<Rightarrow>
             (None,
              c1\<lparr>model := None, baselineModel := None, decorations := None,
                 diffDelayer := None\<rparr>,
              w2))"

text \<open>
  The constructor, lines 93 to 99: the first trigger is issued before the two
  subscriptions are pushed.
\<close>

definition newDirtyDiffModelDecorator ::
  "ModelRef \<Rightarrow> URI \<Rightarrow> World \<Rightarrow> DirtyDiffModelDecorator \<times> World" where
  "newDirtyDiffModelDecorator m u w =
     (let c0 = \<lparr>model = Some m, uri = u, decorations = Some [], baselineModel = None,
                diffDelayer = Some (newThrottledDelayer 200), originalURIPromise = None,
                toDispose = []\<rparr>;
          (c1, w1) = triggerDiff c0 w
      in (c1\<lparr>toDispose := toDispose c1 @ [ContentSubscription m, ProviderSubscription]\<rparr>, w1))"

subsection \<open>One diff cycle\<close>

text \<open>
  What the services answer during one cycle: the provider's
  \<open>getOriginalResource\<close>, the resolver's \<open>createModelReference\<close> and the worker's
  \<open>computeDirtyDiff\<close>; and, when the task finds a resolution already in flight, what
  that cached promise settles with. \<open>Inl\<close> is a rejected promise.
\<close>

record Responses =
  originalResource :: "error + URI option"
  modelReference :: "error + ModelRef"
  dirtyDiff :: "error + IChange list option"
  inFlight :: "error + URI option"

text \<open>
  The promise built in lines 146 to 161, run to its settlement: the provider's
  answer, then the model reference. A rejection passes through both \<open>then\<close>s, none
  of which has an error callback.
\<close>

definition resolveOriginalURI ::
  "Responses \<Rightarrow> DirtyDiffModelDecorator \<Rightarrow> World \<Rightarrow> (error + URI option) \<times> DirtyDiffModelDecorator \<times> World" where
  "resolveOriginalURI r c w =
     (case originalResource r of
        Inl e \<Rightarrow> (Inl e, c, w)
      | Inr originalUri \<Rightarrow>
          (case onOriginalResource w originalUri of
             (False, w1) \<Rightarrow> (Inr None, c, w1)
           | (True, w1) \<Rightarrow>
               (case modelReference r of
                  Inl e \<Rightarrow> (Inl e, c, w1)
                | Inr ref \<Rightarrow> (Inr originalUri, onModelReference c ref, w1))))"

text \<open>
  \<open>diff\<close>, lines 125 to 133, run to the settlement of the promise it returns. A
  promise that \<open>getOriginalURIPromise\<close> has just built is run to its settlement, with
  its callbacks and the clearing of the cache. A cached promise was built by an earlier
  call, which attached those callbacks; this call attaches the callback of line 126
  only, which gets what the cached promise settles with.
\<close>

definition diff ::
  "Responses \<Rightarrow> DirtyDiffModelDecorator \<Rightarrow> World \<Rightarrow> (error + IChange list option) \<times> DirtyDiffModelDecorator \<times> World" where
  "diff r c w =
     (let (promise, c1, w1) = getOriginalURIPromise c w;
          (settled, c2, w2) =
            (case promise of
               Completed v \<Rightarrow> (Inr v, c1, w1)
             | Cached p \<Rightarrow> (inFlight r, c1, w1)
             | Always p \<Rightarrow>
                 (let (v, c', w') = resolveOriginalURI r c1 w1
                  in (v, onOriginalURISettled c', w')))
      in case settled of
           Inl e \<Rightarrow> (Inl e, c2, w2)
         | Inr originalURI \<Rightarrow>
             (case onOriginalURI c2 w2 originalURI of
                Inl changes \<Rightarrow> (Inr (Some changes), c2, w2)
              | Inr w3 \<Rightarrow> (dirtyDiff r, c2, w3)))"

text \<open>
  The handlers that \<open>n\<close> calls of \<open>triggerDiff\<close> attached to one promise, run in
  turn with the same result. An exception ends one handler, not the next; the outcome
  holds the first one thrown.
\<close>

fun onDiffs :: "nat \<Rightarrow> DirtyDiffModelDecorator \<Rightarrow> World \<Rightarrow> IChange list option \<Rightarrow> Outcome" where
  "onDiffs 0 c w changes = (None, c, w)"
| "onDiffs (Suc n) c w changes =
     (case onDiff c w changes of
        (e, c1, w1) \<Rightarrow>
          (case onDiffs n c1 w1 changes of
             (e', c2, w2) \<Rightarrow> (if e = None then e' else e, c2, w2)))"

text \<open>
  One run of the task and the handlers of the \<open>n\<close> triggers it serves: \<open>.then\<close> of
  line 109 has a success callback only, so a rejected diff skips every handler.
\<close>

definition diffCycle :: "nat \<Rightarrow> Responses \<Rightarrow> DirtyDiffModelDecorator \<Rightarrow> World \<Rightarrow> Outcome" where
  "diffCycle n r c w =
     (case diff r c w of
        (Inl e, c1, w1) \<Rightarrow> (Some e, c1, w1)
      | (Inr changes, c1, w1) \<Rightarrow> onDiffs n c1 w1 changes)"

subsection \<open>The decorator among its events\<close>

text \<open>
  Every entry point of the decorator as an event. The services may complete any
  promise at any moment with any value, so each continuation is an event of its own
  and every real schedule is one of the event sequences.
\<close>

datatype Event =
    Notify
  | RunDiff
  | OriginalResource "URI option"
  | ModelReference ModelRef
  | OriginalURISettled
  | OriginalURI "URI option"
  | DiffResult "IChange list option"
  | Dispose
  | ModelDisposed ModelRef
  | ValueLength ModelRef nat
  | ProviderChanged "nat option"
  | ConfigurationChanged bool
  | Clock nat

text \<open>An exception thrown inside a callback ends the callback; the state stays.\<close>

definition settle :: "Outcome \<Rightarrow> DirtyDiffModelDecorator \<times> World" where
  "settle out = (case out of (e, c, w) \<Rightarrow> (c, w))"

fun step :: "DirtyDiffModelDecorator \<times> World \<Rightarrow> Event \<Rightarrow> DirtyDiffModelDecorator \<times> World" where
  "step (c, w) Notify = triggerDiff c w"
| "step (c, w) RunDiff = (case getOriginalURIPromise c w of (promise, c1, w1) \<Rightarrow> (c1, w1))"
| "step (c, w) (OriginalResource originalUri) = (c, snd (onOriginalResource w originalUri))"
| "step (c, w) (ModelReference ref) = (onModelReference c ref, w)"
| "step (c, w) OriginalURISettled = (onOriginalURISettled c, w)"
| "step (c, w) (OriginalURI originalURI) =
     (case onOriginalURI c w originalURI of Inl changes \<Rightarrow> (c, w) | Inr w1 \<Rightarrow> (c, w1))"
| "step (c, w) (DiffResult changes) = settle (onDiff c w changes)"
| "step (c, w) Dispose = settle (dispose c w)"
| "step (c, w) (ModelDisposed m) =
     (c, w\<lparr>modelOf := (modelOf w)(m := (modelOf w m)\<lparr>isDisposed := True\<rparr>)\<rparr>)"
| "step (c, w) (ValueLength m n) =
     (c, w\<lparr>modelOf := (modelOf w)(m := (modelOf w m)\<lparr>getValueLength := n\<rparr>)\<rparr>)"
| "step (c, w) (ProviderChanged provider) = (c, w\<lparr>activeProvider := provider\<rparr>)"
| "step (c, w) (ConfigurationChanged shown) = (c, w\<lparr>showChangesInGutter := shown\<rparr>)"
| "step (c, w) (Clock t) = (c, w\<lparr>now := max (now w) t\<rparr>)"

definition run :: "DirtyDiffModelDecorator \<times> World \<Rightarrow> Event list \<Rightarrow> DirtyDiffModelDecorator \<times> World" where
  "run s es = foldl step s es"

text \<open>The calls of the decoration API among the observable calls.\<close>

fun isDecorationCall :: "Call \<Rightarrow> bool" where
  "isDecorationCall (DeltaDecorations m old new) = True"
| "isDecorationCall other = False"

definition decorationCalls :: "World \<Rightarrow> Call list" where
  "decorationCalls w = filter isDecorationCall (calls w)"

text \<open>The decorations of model \<open>m\<close> that the decorator \<open>c\<close> holds ids of.\<close>

definition shownDecorations :: "DirtyDiffModelDecorator \<Rightarrow> IModel \<Rightarrow> (DecorationId \<times> IModelDeltaDecoration) list" where
  "shownDecorations c m =
     (case decorations c of
        None \<Rightarrow> []
      | Some ids \<Rightarrow> filter (\<lambda>(i, d). i \<in> set ids) (modelDecorations m))"

subsection \<open>The decorator on a clock\<close>









subsection \<open>DirtyDiffDecorator: one decorator per visible model\<close>

text \<open>
  What \<open>e.getControl()\<close> gives for a visible editor: a code editor widget with its
  model, which may be null, or some other control.
\<close>

datatype Control = CodeEditor "ModelRef option" | OtherControl

text \<open>
  The fields of the tracker; \<open>subscriptions\<close> is its \<open>toDispose\<close>, and
  \<open>models\<close> and \<open>decorators\<close> are null once the tracker is disposed.
\<close>

record DirtyDiffDecorator =
  models :: "ModelRef list option"
  decorators :: "(string \<rightharpoonup> DecoratorRef) option"
  subscriptions :: "IDisposable list"

text \<open>
  Decorators are objects too: the registry holds references, and the objects live in
  a store beside the world.
\<close>

record Workbench =
  world :: World
  decoratorOf :: "DecoratorRef \<rightharpoonup> DirtyDiffModelDecorator"
  nextDecorator :: DecoratorRef

type_synonym TrackerOutcome = "error option \<times> DirtyDiffDecorator \<times> Workbench"

text \<open>Lines 262 to 268: the models of the code editor widgets, nulls included.\<close>

fun codeEditorModels :: "Control list \<Rightarrow> ModelRef option list" where
  "codeEditorModels [] = []"
| "codeEditorModels (CodeEditor m # cs) = m # codeEditorModels cs"
| "codeEditorModels (OtherControl # cs) = codeEditorModels cs"

text \<open>
  Line 271: \<open>filter((m, i, a) => !!m && !!m.uri && a.indexOf(m, i + 1) === -1)\<close>.
  An element stays when it is a model with a uri that does not occur again further
  right, so of several occurrences the last one stays.
\<close>

fun withoutNullsAndDuplicates :: "World \<Rightarrow> ModelRef option list \<Rightarrow> ModelRef list" where
  "withoutNullsAndDuplicates w [] = []"
| "withoutNullsAndDuplicates w (None # a) = withoutNullsAndDuplicates w a"
| "withoutNullsAndDuplicates w (Some m # a) =
     (if model_uri (modelOf w m) \<noteq> None \<and> Some m \<notin> set a
      then m # withoutNullsAndDuplicates w a
      else withoutNullsAndDuplicates w a)"

text \<open>Lines 259 to 274: the pairs \<open>{ model: m, uri: m.uri }\<close>.\<close>

definition visibleModels :: "World \<Rightarrow> Control list \<Rightarrow> (ModelRef \<times> URI) list" where
  "visibleModels w controls =
     map (\<lambda>m. (m, the (model_uri (modelOf w m))))
       (withoutNullsAndDuplicates w (codeEditorModels controls))"

text \<open>
  \<open>onModelVisible\<close>, lines 285 to 287: \<open>createInstance\<close> runs the constructor on a
  new object, which is stored under the model's id.
\<close>

definition onModelVisible :: "DirtyDiffDecorator \<Rightarrow> Workbench \<Rightarrow> ModelRef \<times> URI \<Rightarrow> TrackerOutcome" where
  "onModelVisible t wb p =
     (case decorators t of
        None \<Rightarrow> (Some TypeError, t, wb)
      | Some registry \<Rightarrow>
          let (c, w1) = newDirtyDiffModelDecorator (fst p) (snd p) (world wb);
              r = nextDecorator wb
          in (None,
              t\<lparr>decorators := Some (registry(model_id (modelOf w1 (fst p)) \<mapsto> r))\<rparr>,
              wb\<lparr>world := w1, decoratorOf := (decoratorOf wb)(r \<mapsto> c),
                 nextDecorator := Suc r\<rparr>))"

text \<open>
  \<open>onModelInvisible\<close>, lines 289 to 292: a missing entry makes
  \<open>this.decorators[model.id].dispose()\<close> a call on undefined.
\<close>

definition onModelInvisible :: "DirtyDiffDecorator \<Rightarrow> Workbench \<Rightarrow> ModelRef \<Rightarrow> TrackerOutcome" where
  "onModelInvisible t wb m =
     (case decorators t of
        None \<Rightarrow> (Some TypeError, t, wb)
      | Some registry \<Rightarrow>
          (case registry (model_id (modelOf (world wb) m)) of
             None \<Rightarrow> (Some TypeError, t, wb)
           | Some r \<Rightarrow>
               (case decoratorOf wb r of
                  None \<Rightarrow> (Some TypeError, t, wb)
                | Some c \<Rightarrow>
                    (case dispose c (world wb) of
                       (Some e, c1, w1) \<Rightarrow>
                         (Some e, t, wb\<lparr>world := w1, decoratorOf := (decoratorOf wb)(r \<mapsto> c1)\<rparr>)
                     | (None, c1, w1) \<Rightarrow>
                         (None,
                          t\<lparr>decorators := Some (registry(model_id (modelOf w1 m) := None))\<rparr>,
                          wb\<lparr>world := w1, decoratorOf := (decoratorOf wb)(r \<mapsto> c1)\<rparr>)))))"

text \<open>\<open>forEach\<close>: the callback on every element in order; an exception ends the loop.\<close>

fun forEach ::
  "(DirtyDiffDecorator \<Rightarrow> Workbench \<Rightarrow> 'a \<Rightarrow> TrackerOutcome) \<Rightarrow> 'a list \<Rightarrow> DirtyDiffDecorator \<Rightarrow> Workbench \<Rightarrow> TrackerOutcome" where
  "forEach f [] t wb = (None, t, wb)"
| "forEach f (x # xs) t wb =
     (case f t wb x of
        (Some e, t1, wb1) \<Rightarrow> (Some e, t1, wb1)
      | (None, t1, wb1) \<Rightarrow> forEach f xs t1 wb1)"

text \<open>
  \<open>onEditorsChanged\<close>, lines 254 to 283. \<open>this.models\<close> is null after the tracker's own
  \<open>dispose\<close>; \<open>this.models.every\<close> and \<open>this.models.filter\<close> then throw.
\<close>

definition onEditorsChanged :: "DirtyDiffDecorator \<Rightarrow> Workbench \<Rightarrow> Control list \<Rightarrow> TrackerOutcome" where
  "onEditorsChanged t wb controls =
     (let current = visibleModels (world wb) controls
      in case models t of
           None \<Rightarrow> (Some TypeError, t, wb)
         | Some previous \<Rightarrow>
             let newModels = filter (\<lambda>p. list_all (\<lambda>m. fst p \<noteq> m) previous) current;
                 oldModels = filter (\<lambda>m. list_all (\<lambda>p. fst p \<noteq> m) current) previous
             in (case forEach onModelVisible newModels t wb of
                   (Some e, t1, wb1) \<Rightarrow> (Some e, t1, wb1)
                 | (None, t1, wb1) \<Rightarrow>
                     (case forEach onModelInvisible oldModels t1 wb1 of
                        (Some e, t2, wb2) \<Rightarrow> (Some e, t2, wb2)
                      | (None, t2, wb2) \<Rightarrow> (None, t2\<lparr>models := Some (map fst current)\<rparr>, wb2))))"

text \<open>The tracker as its constructor leaves it, lines 236 to 248.\<close>

definition newDirtyDiffDecorator :: DirtyDiffDecorator where
  "newDirtyDiffDecorator =
     \<lparr>models = Some [], decorators = Some Map.empty, subscriptions = [EditorsChangedSubscription]\<rparr>"

abbreviation idOf :: "World \<Rightarrow> ModelRef \<Rightarrow> string" where
  "idOf w m \<equiv> model_id (modelOf w m)"

text \<open>A decorator as \<open>dispose\<close> leaves it.\<close>

definition disposedDecorator :: "DirtyDiffModelDecorator \<Rightarrow> bool" where
  "disposedDecorator c =
     (model c = None \<and> baselineModel c = None \<and> decorations c = None \<and> diffDelayer c = None \<and>
      toDispose c = [])"

text \<open>
  What the registry promises between two notifications: every tracked model has a
  decorator object of its own, and the tracked models are distinct.
\<close>

definition registered :: "DirtyDiffDecorator \<Rightarrow> Workbench \<Rightarrow> ModelRef \<Rightarrow> DecoratorRef option" where
  "registered t wb m =
     (case decorators t of
        None \<Rightarrow> None
      | Some registry \<Rightarrow> registry (model_id (modelOf (world wb) m)))"

definition registryHolds :: "ModelRef list \<Rightarrow> DirtyDiffDecorator \<Rightarrow> Workbench \<Rightarrow> bool" where
  "registryHolds ms t wb =
     (decorators t \<noteq> None \<and> distinct ms \<and>
      list_all (\<lambda>m. case registered t wb m of
                      None \<Rightarrow> False
                    | Some r \<Rightarrow>
                        r < nextDecorator wb \<and>
                        (case decoratorOf wb r of
                           None \<Rightarrow> False
                         | Some c \<Rightarrow> model c \<noteq> None \<longrightarrow> decorations c \<noteq> None)) ms \<and>
      distinct (map (registered t wb) ms))"

definition tracked :: "DirtyDiffDecorator \<Rightarrow> Workbench \<Rightarrow> bool" where
  "tracked t wb = (case models t of None \<Rightarrow> False | Some previous \<Rightarrow> registryHolds previous t wb)"

subsection \<open>What holds of a decorator between its events\<close>

text \<open>
  What holds of a decorator constructed for model \<open>m\<close> at every later moment: it
  holds \<open>m\<close> or, once disposed, nothing; while it holds its model it holds a list of
  decoration ids; and as long as no baseline has been loaded that list is empty.
\<close>

definition constructedFor :: "ModelRef \<Rightarrow> DirtyDiffModelDecorator \<times> World \<Rightarrow> bool" where
  "constructedFor m s =
     ((model (fst s) = None \<or> model (fst s) = Some m) \<and>
      (model (fst s) \<noteq> None \<longrightarrow> decorations (fst s) \<noteq> None) \<and>
      (baselineModel (fst s) = None \<longrightarrow> model (fst s) = None \<or> decorations (fst s) = Some []))"

text \<open>
  What holds of the buffer \<open>m\<close> of a decorator that is not disposed: it carries the
  decorations it carried before the decorator was constructed, followed by those
  whose ids the decorator holds, and none of the earlier ones has such an id.
\<close>

definition decoratedBy ::
  "(DecorationId \<times> IModelDeltaDecoration) list \<Rightarrow> ModelRef \<Rightarrow> DirtyDiffModelDecorator \<times> World \<Rightarrow> bool" where
  "decoratedBy before m s =
     (case model (fst s) of
        None \<Rightarrow> True
      | Some a \<Rightarrow>
          (case decorations (fst s) of
             None \<Rightarrow> False
           | Some ids \<Rightarrow>
               take (length before) (modelDecorations (modelOf (snd s) m)) = before \<and>
               map fst (drop (length before) (modelDecorations (modelOf (snd s) m))) = ids \<and>
               list_all (\<lambda>i. i \<notin> set ids) (map fst before)))"

subsection \<open>Example values\<close>

text \<open>
  A buffer of twelve characters, its empty baseline, a world that holds both, one
  modification of lines 3 to 5 and a decorator as it is after its baseline has been
  loaded.
\<close>

definition exampleModel :: IModel where
  "exampleModel =
     \<lparr>model_id = ''$model1'', model_uri = Some ''file:///a.ts'', isDisposed = False,
      getValueLength = 12, modelDecorations = [], lastDecorationId = 0\<rparr>"

definition exampleWorld :: World where
  "exampleWorld =
     \<lparr>modelOf = (\<lambda>r. exampleModel)
        (1 := exampleModel\<lparr>model_id := ''$model2'', model_uri := Some ''git:/a.ts'',
                            getValueLength := 0\<rparr>),
      activeProvider = Some 0, showChangesInGutter = True, calls = [], nextPromise = 0,
      now = 0\<rparr>"

definition exampleChange :: IChange where
  "exampleChange =
     \<lparr>originalStartLineNumber = 3, originalEndLineNumber = 4,
      modifiedStartLineNumber = 3, modifiedEndLineNumber = 5\<rparr>"

definition exampleDecorator :: DirtyDiffModelDecorator where
  "exampleDecorator =
     \<lparr>model = Some 0, uri = ''file:///a.ts'', decorations = Some [],
      baselineModel = Some 1, diffDelayer = Some (newThrottledDelayer 200),
      originalURIPromise = None, toDispose = [ContentSubscription 0, ProviderSubscription]\<rparr>"

text \<open>
  Three buffers A, B and C (references 0, 1 and 2) with ids of their own; the editors
  first show A and B, then B and C among a control without a model, a widget
  without a model and no other buffer.
\<close>

definition exampleWorkbench :: Workbench where
  "exampleWorkbench =
     \<lparr>world = exampleWorld\<lparr>modelOf := (\<lambda>r. exampleModel)
        (1 := exampleModel\<lparr>model_id := ''$model2'', model_uri := Some ''file:///b.ts''\<rparr>,
         2 := exampleModel\<lparr>model_id := ''$model3'', model_uri := Some ''file:///c.ts''\<rparr>)\<rparr>,
      decoratorOf = Map.empty, nextDecorator = 0\<rparr>"

definition shownAB :: TrackerOutcome where
  "shownAB = onEditorsChanged newDirtyDiffDecorator exampleWorkbench
               [CodeEditor (Some 0), CodeEditor (Some 1)]"

definition shownBC :: TrackerOutcome where
  "shownBC = onEditorsChanged (fst (snd shownAB)) (snd (snd shownAB))
               [CodeEditor (Some 1), OtherControl, CodeEditor None, CodeEditor (Some 2)]"


text \<open>
  Answers of the services for one cycle: a baseline that loads, a provider without an
  origin for the file, and a provider whose promise is rejected.
\<close>

definition loadingResponses :: Responses where
  "loadingResponses =
     \<lparr>originalResource = Inr (Some ''git:/a.ts''), modelReference = Inr 2,
      dirtyDiff = Inr (Some [exampleChange]), inFlight = Inr None\<rparr>"

definition failingResponses :: Responses where
  "failingResponses =
     \<lparr>originalResource = Inl Rejected, modelReference = Inr 2,
      dirtyDiff = Inr (Some [exampleChange]), inFlight = Inr None\<rparr>"

definition nullResponses :: Responses where
  "nullResponses =
     \<lparr>originalResource = Inr None, modelReference = Inr 2,
      dirtyDiff = Inr (Some [exampleChange]), inFlight = Inr None\<rparr>"

text \<open>
  The example decorator after its first cycle, event by event, and the two cycles of
  the history "a diff with one modification is shown, then a resolution fails".
\<close>

definition exampleLoaded :: "DirtyDiffModelDecorator \<times> World" where
  "exampleLoaded =
     run (newDirtyDiffModelDecorator 0 ''file:///a.ts'' exampleWorld)
       [RunDiff, OriginalResource (Some ''git:/a.ts''), ModelReference 2, OriginalURISettled,
        OriginalURI (Some ''git:/a.ts''), DiffResult (Some [exampleChange])]"

definition afterFirstCycle :: Outcome where
  "afterFirstCycle =
     (case newDirtyDiffModelDecorator 0 ''file:///a.ts'' exampleWorld of
        (c, w) \<Rightarrow> diffCycle 1 loadingResponses c w)"

definition afterFailedCycle :: Outcome where
  "afterFailedCycle =
     (case afterFirstCycle of (e, c, w) \<Rightarrow> diffCycle 1 failingResponses c w)"

section \<open>Properties of the mapper\<close>

text \<open>
  The kind of a decoration is carried by its options object; the four registered
  objects differ in their glyph class.
\<close>

lemma options_distinct:
  "ADDED_DECORATION_OPTIONS \<noteq> DELETED_DECORATION_OPTIONS"
  "ADDED_DECORATION_OPTIONS \<noteq> MODIFIED_DECORATION_OPTIONS"
  "ADDED_DECORATION_OPTIONS \<noteq> HIDDEN_DECORATION_OPTIONS"
  "DELETED_DECORATION_OPTIONS \<noteq> MODIFIED_DECORATION_OPTIONS"
  "DELETED_DECORATION_OPTIONS \<noteq> HIDDEN_DECORATION_OPTIONS"
  "MODIFIED_DECORATION_OPTIONS \<noteq> HIDDEN_DECORATION_OPTIONS"
  by (simp_all add: ADDED_DECORATION_OPTIONS_def DELETED_DECORATION_OPTIONS_def
      MODIFIED_DECORATION_OPTIONS_def HIDDEN_DECORATION_OPTIONS_def)

lemma changeToDecoration_visible:
  "changeToDecoration False c =
     (if originalEndLineNumber c = 0 then
        \<lparr>range' = lineSpan (modifiedStartLineNumber c)
                     (orElse (modifiedEndLineNumber c) (modifiedStartLineNumber c)),
         options = ADDED_DECORATION_OPTIONS\<rparr>
      else if modifiedEndLineNumber c = 0 then
        \<lparr>range' = lineSpan (modifiedStartLineNumber c) (modifiedStartLineNumber c),
         options = DELETED_DECORATION_OPTIONS\<rparr>
      else
        \<lparr>range' = lineSpan (modifiedStartLineNumber c) (modifiedEndLineNumber c),
         options = MODIFIED_DECORATION_OPTIONS\<rparr>)"
  by (simp add: changeToDecoration_def lineSpan_def orElse_def Let_def)


text \<open>
  Claim C1. With \<open>hidden = false\<close> the mapper returns one decoration per change, in the
  order of the changes, and classifies by the sentinels, tested in the order of the
  source: a change with \<open>originalEndLineNumber = 0\<close> gives the Added options on the lines
  from \<open>modifiedStartLineNumber\<close> to \<open>modifiedEndLineNumber || modifiedStartLineNumber\<close>;
  one that is not Added and has \<open>modifiedEndLineNumber = 0\<close> gives the Deleted options
  on the single line \<open>modifiedStartLineNumber\<close>; any other change gives the Modified
  options on the lines from \<open>modifiedStartLineNumber\<close> to \<open>modifiedEndLineNumber\<close>.
\<close>

theorem changesToDecorations_classification:
  "length (changesToDecorations changes False) = length changes \<and>
   (\<forall>i<length changes.
      let change = changes ! i; d = changesToDecorations changes False ! i
      in (originalEndLineNumber change = 0 \<longrightarrow>
            options d = ADDED_DECORATION_OPTIONS \<and>
            range' d = lineSpan (modifiedStartLineNumber change)
                         (orElse (modifiedEndLineNumber change) (modifiedStartLineNumber change))) \<and>
         (originalEndLineNumber change \<noteq> 0 \<and> modifiedEndLineNumber change = 0 \<longrightarrow>
            options d = DELETED_DECORATION_OPTIONS \<and>
            range' d = lineSpan (modifiedStartLineNumber change) (modifiedStartLineNumber change)) \<and>
         (originalEndLineNumber change \<noteq> 0 \<and> modifiedEndLineNumber change \<noteq> 0 \<longrightarrow>
            options d = MODIFIED_DECORATION_OPTIONS \<and>
            range' d = lineSpan (modifiedStartLineNumber change) (modifiedEndLineNumber change)))"
  by (simp add: changesToDecorations_def changeToDecoration_visible Let_def)

text \<open>
  An insertion of lines 6 to 7, a deletion after line 8 and a modification of lines 3
  to 5, each read off the theorem.
\<close>

theorem changesToDecorations_classification_witness:
  "changesToDecorations
     [\<lparr>originalStartLineNumber = 6, originalEndLineNumber = 0,
       modifiedStartLineNumber = 6, modifiedEndLineNumber = 7\<rparr>,
      \<lparr>originalStartLineNumber = 9, originalEndLineNumber = 9,
       modifiedStartLineNumber = 8, modifiedEndLineNumber = 0\<rparr>,
      \<lparr>originalStartLineNumber = 3, originalEndLineNumber = 4,
       modifiedStartLineNumber = 3, modifiedEndLineNumber = 5\<rparr>]
     False =
   [\<lparr>range' = lineSpan 6 7, options = ADDED_DECORATION_OPTIONS\<rparr>,
    \<lparr>range' = lineSpan 8 8, options = DELETED_DECORATION_OPTIONS\<rparr>,
    \<lparr>range' = lineSpan 3 5, options = MODIFIED_DECORATION_OPTIONS\<rparr>]"
proof -
  let ?changes =
    "[\<lparr>originalStartLineNumber = 6, originalEndLineNumber = 0,
       modifiedStartLineNumber = 6, modifiedEndLineNumber = 7\<rparr>,
      \<lparr>originalStartLineNumber = 9, originalEndLineNumber = 9,
       modifiedStartLineNumber = 8, modifiedEndLineNumber = 0\<rparr>,
      \<lparr>originalStartLineNumber = 3, originalEndLineNumber = 4,
       modifiedStartLineNumber = 3::int, modifiedEndLineNumber = 5\<rparr>]"
  let ?out = "changesToDecorations ?changes False"
  note h = changesToDecorations_classification [of ?changes]
  from h have len: "length ?out = 3" by simp
  from h have a: "?out ! 0 = \<lparr>range' = lineSpan 6 7, options = ADDED_DECORATION_OPTIONS\<rparr>"
    by (simp add: Let_def orElse_def All_less_Suc numeral_3_eq_3)
  from h have b: "?out ! 1 = \<lparr>range' = lineSpan 8 8, options = DELETED_DECORATION_OPTIONS\<rparr>"
    by (simp add: Let_def orElse_def All_less_Suc numeral_3_eq_3)
  from h have c: "?out ! 2 = \<lparr>range' = lineSpan 3 5, options = MODIFIED_DECORATION_OPTIONS\<rparr>"
    by (simp add: Let_def orElse_def All_less_Suc numeral_3_eq_3 numeral_2_eq_2)
  show ?thesis
    using len a b c
    by (simp add: list_eq_iff_nth_eq All_less_Suc numeral_3_eq_3 numeral_2_eq_2)
qed

text \<open>
  Claim C2. With \<open>hidden = true\<close> the mapper returns, whatever the changes hold, as many
  decorations as there are changes, each with the Hidden options and the range of the
  source: both line numbers 0, start column 1 and end column 0. The range lies on line
  0 and holds no column, since its end column comes before its start column.
\<close>

theorem changesToDecorations_hidden:
  "changesToDecorations changes True =
     replicate (length changes)
       \<lparr>range' = \<lparr>startLineNumber = 0, startColumn = 1, endLineNumber = 0, endColumn = 0\<rparr>,
        options = HIDDEN_DECORATION_OPTIONS\<rparr> \<and>
   length (changesToDecorations changes True) = length changes \<and>
   \<not> (\<exists>col. startColumn (range' (changeToDecoration True change)) \<le> col \<and>
              col < endColumn (range' (changeToDecoration True change)))"
  by (induction changes) (simp_all add: changesToDecorations_def changeToDecoration_def)

text \<open>
  Claim C10. A change with both \<open>originalEndLineNumber = 0\<close> and
  \<open>modifiedEndLineNumber = 0\<close> meets the Added test first: with \<open>hidden = false\<close> its
  decoration has the Added options, not the Deleted ones, on the single line
  \<open>modifiedStartLineNumber\<close>.
\<close>

theorem changesToDecorations_both_sentinels:
  assumes "i < length changes"
    and "originalEndLineNumber (changes ! i) = 0"
    and "modifiedEndLineNumber (changes ! i) = 0"
  shows "changesToDecorations changes False ! i =
           \<lparr>range' = lineSpan (modifiedStartLineNumber (changes ! i))
                        (modifiedStartLineNumber (changes ! i)),
            options = ADDED_DECORATION_OPTIONS\<rparr> \<and>
         options (changesToDecorations changes False ! i) \<noteq> DELETED_DECORATION_OPTIONS"
  using assms options_distinct(1)
  by (simp add: changesToDecorations_def changeToDecoration_visible orElse_def)

theorem changesToDecorations_both_sentinels_witness:
  "changesToDecorations
     [\<lparr>originalStartLineNumber = 4, originalEndLineNumber = 0,
       modifiedStartLineNumber = 5, modifiedEndLineNumber = 0\<rparr>] False ! 0 =
     \<lparr>range' = lineSpan 5 5, options = ADDED_DECORATION_OPTIONS\<rparr> \<and>
   options (changesToDecorations
     [\<lparr>originalStartLineNumber = 4, originalEndLineNumber = 0,
       modifiedStartLineNumber = 5, modifiedEndLineNumber = 0\<rparr>] False ! 0)
     \<noteq> DELETED_DECORATION_OPTIONS"
  using changesToDecorations_both_sentinels
    [of 0 "[\<lparr>originalStartLineNumber = 4, originalEndLineNumber = 0,
             modifiedStartLineNumber = 5, modifiedEndLineNumber = 0\<rparr>]"]
  by (simp add: options_distinct(1))

section \<open>Properties of the decorator\<close>

subsection \<open>The decoration API and the completion handler\<close>


lemma deltaDecorations_alive:
  "\<not> isDisposed m \<Longrightarrow> \<exists>ids m'. deltaDecorations m old new = Inr (ids, m') \<and> length ids = length new
     \<and> modelDecorations m' = filter (\<lambda>(i, d). i \<notin> set old) (modelDecorations m) @ zip ids new
     \<and> isDisposed m' = isDisposed m \<and> model_id m' = model_id m \<and> model_uri m' = model_uri m
     \<and> getValueLength m' = getValueLength m"
  by (simp add: deltaDecorations_def Let_def)

lemma deltaDecorations_clear:
  "\<not> isDisposed m \<Longrightarrow>
     deltaDecorations m old [] =
       Inr ([], m\<lparr>modelDecorations := filter (\<lambda>(i, d). i \<notin> set old) (modelDecorations m),
                lastDecorationId := fold max (map fst (modelDecorations m)) (lastDecorationId m)\<rparr>)"
  by (simp add: deltaDecorations_def Let_def)

lemma changesToDecorations_Nil: "changesToDecorations [] hidden = []"
  by (simp add: changesToDecorations_def)

lemma onDiff_stale:
  assumes "model c = None \<or> (\<exists>m. model c = Some m \<and> isDisposed (modelOf w m)) \<or>
           baselineModel c = None \<or> (\<exists>b. baselineModel c = Some b \<and> isDisposed (modelOf w b))"
  shows "onDiff c w changes = (None, c, w)"
  using assms by (auto simp add: onDiff_def split: option.splits)

lemma step_constructedFor: "constructedFor m s \<Longrightarrow> constructedFor m (step s e)"
proof -
  obtain c w where s: "s = (c, w)" by (cases s)
  assume h: "constructedFor m s"
  show ?thesis
  proof (cases e)
    case Dispose
    with h s show ?thesis
      by (auto simp add: constructedFor_def settle_def dispose_def disposeAll_def Let_def
          deltaDecorations_clear split: option.splits sum.splits prod.splits)
  next
    case (DiffResult changes)
    with h s show ?thesis
      by (auto simp add: constructedFor_def settle_def onDiff_def Let_def
          split: option.splits sum.splits prod.splits)
  qed (use h s in \<open>auto simp add: constructedFor_def triggerDiff_def getOriginalURIPromise_def
         onOriginalResource_def onModelReference_def onOriginalURISettled_def onOriginalURI_def Let_def
         split: option.splits sum.splits prod.splits\<close>)
qed

lemma run_constructedFor: "constructedFor m s \<Longrightarrow> constructedFor m (run s es)"
  unfolding run_def by (induction es arbitrary: s) (simp_all add: step_constructedFor)

lemma new_constructedFor: "constructedFor m (newDirtyDiffModelDecorator m u w)"
  by (simp add: constructedFor_def newDirtyDiffModelDecorator_def triggerDiff_def Let_def
      newThrottledDelayer_def split: prod.splits)

lemma dispose_disposed:
  "model c = None \<Longrightarrow> toDispose c = [] \<Longrightarrow> baselineModel c = None \<Longrightarrow> decorations c = None \<Longrightarrow>
   diffDelayer c = None \<Longrightarrow> dispose c w = (None, c, w)"
  by (simp add: dispose_def disposeAll_def)

lemma dispose_ok:
  assumes "model c \<noteq> None \<longrightarrow> decorations c \<noteq> None"
  shows "\<exists>c1 w1. dispose c w = (None, c1, w1) \<and> model c1 = None \<and> toDispose c1 = [] \<and>
           baselineModel c1 = None \<and> decorations c1 = None \<and> diffDelayer c1 = None"
  using assms
  by (auto simp add: dispose_def disposeAll_def Let_def deltaDecorations_clear split: option.splits)

lemma step_disposed:
  assumes "model (fst s) = None"
  shows "model (fst (step s e)) = None \<and> decorationCalls (snd (step s e)) = decorationCalls (snd s)"
proof -
  obtain c w where s: "s = (c, w)" by (cases s)
  show ?thesis
  proof (cases e)
    case Dispose
    with assms s show ?thesis
      by (auto simp add: settle_def dispose_def disposeAll_def decorationCalls_def Let_def
          split: option.splits sum.splits prod.splits)
  next
    case (DiffResult changes)
    with assms s show ?thesis
      by (simp add: settle_def onDiff_def)
  qed (use assms s in \<open>auto simp add: decorationCalls_def triggerDiff_def getOriginalURIPromise_def
         onOriginalResource_def onModelReference_def onOriginalURISettled_def onOriginalURI_def Let_def
         split: option.splits sum.splits prod.splits\<close>)
qed

lemma run_disposed:
  "model (fst s) = None \<Longrightarrow>
     model (fst (run s es)) = None \<and> decorationCalls (snd (run s es)) = decorationCalls (snd s)"
  unfolding run_def
proof (induction es arbitrary: s)
  case Nil
  then show ?case by simp
next
  case (Cons e es)
  from step_disposed [OF Cons.prems, of e] Cons.IH [of "step s e"]
  show ?case by simp
qed

lemma run_append: "run s (es1 @ es2) = run (run s es1) es2"
  by (simp add: run_def)

lemma step_Dispose_model:
  assumes "constructedFor m s" shows "model (fst (step s Dispose)) = None"
proof -
  obtain c w where s: "s = (c, w)" by (cases s)
  with assms have "model c \<noteq> None \<longrightarrow> decorations c \<noteq> None" by (simp add: constructedFor_def)
  from dispose_ok [OF this, of w] s show ?thesis by (auto simp add: settle_def)
qed

text \<open>
  Claim C3. When the completion handler applies a diff (the buffer and the baseline
  buffer are there and not disposed) and the baseline buffer has length 0, the changes
  are replaced by the empty list before they are mapped: whatever the diff service
  returned, the decoration API is called with no new decorations, the decorator holds
  no decoration id afterwards and none of its decorations is left on the buffer.
\<close>

theorem onDiff_empty_baseline:
  assumes "model c = Some m" and "\<not> isDisposed (modelOf w m)"
    and "baselineModel c = Some b" and "\<not> isDisposed (modelOf w b)"
    and "getValueLength (modelOf w b) = 0"
    and "decorations c = Some old"
  shows "\<exists>c' w'. onDiff c w changes = (None, c', w') \<and>
           decorations c' = Some [] \<and>
           shownDecorations c' (modelOf w' m) = [] \<and>
           calls w' = calls w @ [DeltaDecorations m old []] \<and>
           modelDecorations (modelOf w' m) =
             filter (\<lambda>(i, d). i \<notin> set old) (modelDecorations (modelOf w m))"
  using assms
  by (simp add: onDiff_def Let_def changesToDecorations_Nil deltaDecorations_clear shownDecorations_def)

theorem onDiff_empty_baseline_witness:
  "\<exists>c' w'. onDiff exampleDecorator exampleWorld (Some [exampleChange]) = (None, c', w') \<and>
      decorations c' = Some [] \<and> calls w' = [DeltaDecorations 0 [] []]"
  using onDiff_empty_baseline [of exampleDecorator 0 exampleWorld 1 "[]" "Some [exampleChange]"]
  by (auto simp add: exampleDecorator_def exampleWorld_def exampleModel_def)

text \<open>
  Claim C4. From the constructor on, whatever events come in whatever order: once
  \<open>dispose\<close> has run, no later event adds a call of the decoration API, so a diff that
  completes after disposal is not applied. The completion handler also leaves
  decorator and world as they are when the buffer or the baseline buffer is missing or
  disposed.
\<close>

theorem stale_diff_discarded:
  "decorationCalls (snd (run (newDirtyDiffModelDecorator m u w0) (es1 @ Dispose # es2))) =
     decorationCalls (snd (run (newDirtyDiffModelDecorator m u w0) (es1 @ [Dispose]))) \<and>
   (model c = None \<or> (\<exists>a. model c = Some a \<and> isDisposed (modelOf w a)) \<or>
    baselineModel c = None \<or> (\<exists>b. baselineModel c = Some b \<and> isDisposed (modelOf w b))
      \<longrightarrow> onDiff c w changes = (None, c, w))"
proof -
  let ?s = "run (newDirtyDiffModelDecorator m u w0) es1"
  have "constructedFor m ?s" by (rule run_constructedFor [OF new_constructedFor])
  then have "model (fst (step ?s Dispose)) = None" by (rule step_Dispose_model)
  from run_disposed [OF this, of es2]
  have "decorationCalls (snd (run (step ?s Dispose) es2)) = decorationCalls (snd (step ?s Dispose))"
    by simp
  moreover have "run (newDirtyDiffModelDecorator m u w0) (es1 @ Dispose # es2) = run (step ?s Dispose) es2"
    by (simp add: run_def)
  moreover have "run (newDirtyDiffModelDecorator m u w0) (es1 @ [Dispose]) = step ?s Dispose"
    by (simp add: run_def)
  ultimately show ?thesis using onDiff_stale [of c w changes] by auto
qed

theorem stale_diff_discarded_witness:
  "decorationCalls (snd (run (newDirtyDiffModelDecorator 0 ''file:///a.ts'' exampleWorld)
      ([ValueLength 1 7, ModelReference 1, DiffResult (Some [exampleChange])] @ Dispose #
       [DiffResult (Some [exampleChange]), Notify, Dispose]))) =
     [DeltaDecorations 0 [] [\<lparr>range' = lineSpan 3 5, options = MODIFIED_DECORATION_OPTIONS\<rparr>],
      DeltaDecorations 0 [1] []] \<and>
   onDiff (exampleDecorator\<lparr>model := None\<rparr>) exampleWorld (Some [exampleChange]) =
     (None, exampleDecorator\<lparr>model := None\<rparr>, exampleWorld)"
proof -
  have "decorationCalls (snd (run (newDirtyDiffModelDecorator 0 ''file:///a.ts'' exampleWorld)
      ([ValueLength 1 7, ModelReference 1, DiffResult (Some [exampleChange])] @ [Dispose]))) =
     [DeltaDecorations 0 [] [\<lparr>range' = lineSpan 3 5, options = MODIFIED_DECORATION_OPTIONS\<rparr>],
      DeltaDecorations 0 [1] []]"
    by (simp add: run_def newDirtyDiffModelDecorator_def triggerDiff_def newThrottledDelayer_def
        trigger_def exampleWorld_def exampleModel_def onModelReference_def settle_def onDiff_def
        changesToDecorations_def changeToDecoration_visible exampleChange_def deltaDecorations_def
        dispose_def disposeAll_def decorationCalls_def Let_def)
  then show ?thesis
    using stale_diff_discarded [of 0 "''file:///a.ts''" exampleWorld
        "[ValueLength 1 7, ModelReference 1, DiffResult (Some [exampleChange])]"
        "[DiffResult (Some [exampleChange]), Notify, Dispose]"
        "exampleDecorator\<lparr>model := None\<rparr>" exampleWorld "Some [exampleChange]"]
    by simp
qed

text \<open>
  Claim C8. After any history since the constructor, including the disposal of the
  buffer itself and earlier calls of \<open>dispose\<close>, \<open>dispose\<close> returns without an
  exception, and a second \<open>dispose\<close> right after it returns without an exception and
  changes neither the decorator nor the world, so it makes no call at all.
\<close>

theorem dispose_twice:
  "\<exists>c w c1 w1. run (newDirtyDiffModelDecorator m u w0) es = (c, w) \<and>
      dispose c w = (None, c1, w1) \<and> dispose c1 w1 = (None, c1, w1)"
proof -
  obtain c w where s: "run (newDirtyDiffModelDecorator m u w0) es = (c, w)"
    by (cases "run (newDirtyDiffModelDecorator m u w0) es")
  have "constructedFor m (c, w)"
    using run_constructedFor [OF new_constructedFor, of m u w0 es] s by simp
  then have "model c \<noteq> None \<longrightarrow> decorations c \<noteq> None" by (simp add: constructedFor_def)
  from dispose_ok [OF this, of w] obtain c1 w1 where
    d: "dispose c w = (None, c1, w1)" "model c1 = None" "toDispose c1 = []"
       "baselineModel c1 = None" "decorations c1 = None" "diffDelayer c1 = None"
    by blast
  from dispose_disposed [OF d(2) d(3) d(4) d(5) d(6), of w1] s d(1) show ?thesis by blast
qed

subsection \<open>Resolving the baseline\<close>

lemma resolveOriginalURI_keeps:
  "resolveOriginalURI r c w = (v, c2, w2) \<Longrightarrow>
     activeProvider w2 = activeProvider w \<and> nextPromise w2 = nextPromise w \<and> uri c2 = uri c \<and>
     modelOf w2 = modelOf w \<and> decorations c2 = decorations c \<and> model c2 = model c \<and>
     decorationCalls w2 = decorationCalls w \<and> originalURIPromise c2 = originalURIPromise c"
  by (auto simp add: resolveOriginalURI_def onOriginalResource_def onModelReference_def
      decorationCalls_def split: sum.splits option.splits bool.splits prod.splits)

lemma getOriginalURIPromise_cached:
  "originalURIPromise c = Some p \<Longrightarrow> getOriginalURIPromise c w = (Cached p, c, w)"
  by (simp add: getOriginalURIPromise_def)

lemma getOriginalURIPromise_fresh:
  "originalURIPromise c = None \<Longrightarrow> activeProvider w = Some provider \<Longrightarrow>
   getOriginalURIPromise c w =
     (Always (nextPromise w), c\<lparr>originalURIPromise := Some (nextPromise w)\<rparr>,
      w\<lparr>calls := calls w @ [GetOriginalResource provider (uri c)], nextPromise := Suc (nextPromise w)\<rparr>)"
  by (simp add: getOriginalURIPromise_def Let_def)

lemma run_RunDiff_cached:
  "originalURIPromise c = Some p \<Longrightarrow> run (c, w) (replicate n RunDiff) = (c, w)"
  by (induction n) (simp_all add: run_def getOriginalURIPromise_cached)

text \<open>
  Claim C6. With a provider and no resolution in flight, \<open>getOriginalURIPromise\<close> asks
  the provider once and caches the promise. Every call while that promise is in flight
  returns the cached promise and changes nothing, so the provider is not asked again,
  however many diffs start. When the promise settles, whatever the provider and the
  resolver answered or failed with, the cache is empty, and the next call asks the
  provider again and caches a new promise.
\<close>

theorem originalURIPromise_single_flight:
  assumes "originalURIPromise c = None" and "activeProvider w = Some provider"
  shows "\<exists>c1 w1. getOriginalURIPromise c w = (Always (nextPromise w), c1, w1) \<and>
           originalURIPromise c1 = Some (nextPromise w) \<and>
           calls w1 = calls w @ [GetOriginalResource provider (uri c)] \<and>
           getOriginalURIPromise c1 w1 = (Cached (nextPromise w), c1, w1) \<and>
           run (c1, w1) (replicate n RunDiff) = (c1, w1) \<and>
           (\<exists>v c2 w2. resolveOriginalURI r c1 w1 = (v, c2, w2) \<and>
              originalURIPromise (onOriginalURISettled c2) = None \<and>
              (\<exists>c3 w3. getOriginalURIPromise (onOriginalURISettled c2) w2 =
                          (Always (nextPromise w2), c3, w3) \<and>
                        nextPromise w2 \<noteq> nextPromise w \<and>
                        calls w3 = calls w2 @ [GetOriginalResource provider (uri c)]))"
proof -
  let ?p = "nextPromise w"
  let ?c1 = "c\<lparr>originalURIPromise := Some ?p\<rparr>"
  let ?w1 = "w\<lparr>calls := calls w @ [GetOriginalResource provider (uri c)], nextPromise := Suc ?p\<rparr>"
  have a: "getOriginalURIPromise c w = (Always ?p, ?c1, ?w1)"
    by (rule getOriginalURIPromise_fresh [OF assms])
  have b: "getOriginalURIPromise ?c1 ?w1 = (Cached ?p, ?c1, ?w1)"
    by (rule getOriginalURIPromise_cached) simp
  have c: "run (?c1, ?w1) (replicate n RunDiff) = (?c1, ?w1)"
    by (rule run_RunDiff_cached [of _ ?p]) simp
  obtain v c2 w2 where d: "resolveOriginalURI r ?c1 ?w1 = (v, c2, w2)"
    by (cases "resolveOriginalURI r ?c1 ?w1")
  from resolveOriginalURI_keeps [OF d] assms
  have k: "activeProvider w2 = Some provider" "nextPromise w2 = Suc ?p" "uri c2 = uri c"
    by simp_all
  have e: "originalURIPromise (onOriginalURISettled c2) = None"
    by (simp add: onOriginalURISettled_def)
  have u: "uri (onOriginalURISettled c2) = uri c"
    using k by (simp add: onOriginalURISettled_def)
  from getOriginalURIPromise_fresh [OF e k(1)] u
  have f: "\<exists>c3 w3. getOriginalURIPromise (onOriginalURISettled c2) w2 = (Always (nextPromise w2), c3, w3) \<and>
             calls w3 = calls w2 @ [GetOriginalResource provider (uri c)]"
    by simp
  from a b c d e f k show ?thesis by auto
qed

theorem originalURIPromise_single_flight_witness:
  "\<exists>c1 w1. getOriginalURIPromise (exampleDecorator\<lparr>baselineModel := None\<rparr>) exampleWorld = (Always 0, c1, w1) \<and>
      originalURIPromise c1 = Some 0 \<and>
      calls w1 = [GetOriginalResource 0 ''file:///a.ts''] \<and>
      getOriginalURIPromise c1 w1 = (Cached 0, c1, w1) \<and>
      run (c1, w1) (replicate 3 RunDiff) = (c1, w1) \<and>
      (\<exists>v c2 w2. resolveOriginalURI \<lparr>originalResource = Inl Rejected, modelReference = Inr 1,
                     dirtyDiff = Inr None, inFlight = Inr None\<rparr> c1 w1 = (v, c2, w2) \<and>
         originalURIPromise (onOriginalURISettled c2) = None \<and>
         (\<exists>c3 w3. getOriginalURIPromise (onOriginalURISettled c2) w2 = (Always (nextPromise w2), c3, w3) \<and>
             0 < nextPromise w2 \<and>
             calls w3 = calls w2 @ [GetOriginalResource 0 ''file:///a.ts'']))"
  using originalURIPromise_single_flight [of "exampleDecorator\<lparr>baselineModel := None\<rparr>" exampleWorld 0 3
      "\<lparr>originalResource = Inl Rejected, modelReference = Inr 1, dirtyDiff = Inr None,
         inFlight = Inr None\<rparr>"]
  by (simp add: exampleDecorator_def exampleWorld_def)

subsection \<open>A cycle that finds no baseline\<close>

lemma fold_max_ge: "a \<le> fold max xs (a::nat) \<and> (\<forall>x\<in>set xs. x \<le> fold max xs a)"
proof (induction xs arbitrary: a)
  case Nil
  show ?case by simp
next
  case (Cons y ys)
  from Cons [of "max y a"] show ?case by auto
qed

lemma deltaDecorations_owned:
  assumes "\<not> isDisposed M"
    and "take (length before) (modelDecorations M) = before"
    and "map fst (drop (length before) (modelDecorations M)) = old"
    and "list_all (\<lambda>i. i \<notin> set old) (map fst before)"
  shows "\<exists>ids M'. deltaDecorations M old new = Inr (ids, M') \<and>
           take (length before) (modelDecorations M') = before \<and>
           map fst (drop (length before) (modelDecorations M')) = ids \<and>
           list_all (\<lambda>i. i \<notin> set ids) (map fst before) \<and>
           modelDecorations M' = before @ zip ids new \<and> length ids = length new"
proof -
  let ?base = "fold max (map fst (modelDecorations M)) (lastDecorationId M)"
  let ?ids = "map (\<lambda>i. ?base + Suc i) [0..<length new]"
  let ?own = "drop (length before) (modelDecorations M)"
  have split: "modelDecorations M = before @ ?own"
    using assms(2) by (metis append_take_drop_id)
  have f1: "filter (\<lambda>(i, d). i \<notin> set old) before = before"
    using assms(4) by (auto simp add: list_all_iff filter_id_conv)
  have f2: "filter (\<lambda>(i, d). i \<notin> set old) ?own = []"
    using assms(3) by (force simp add: filter_empty_conv)
  have kept: "filter (\<lambda>(i, d). i \<notin> set old) (modelDecorations M) = before"
    by (subst split) (simp only: filter_append f1 f2 append_Nil2)
  have le: "\<forall>x\<in>set (map fst before). x \<le> ?base"
  proof
    fix x assume "x \<in> set (map fst before)"
    then have "x \<in> set (map fst (modelDecorations M))"
      by (subst split) auto
    with fold_max_ge [of "lastDecorationId M" "map fst (modelDecorations M)"]
    show "x \<le> ?base" by blast
  qed
  have fresh: "list_all (\<lambda>i. i \<notin> set ?ids) (map fst before)"
    unfolding list_all_iff
  proof
    fix x assume "x \<in> set (map fst before)"
    with le have "x \<le> ?base" by blast
    then show "x \<notin> set ?ids" by auto
  qed
  have eq: "deltaDecorations M old new =
      Inr (?ids, M\<lparr>modelDecorations := before @ zip ?ids new,
                      lastDecorationId := ?base + length new\<rparr>)"
    using assms(1) kept by (simp add: deltaDecorations_def Let_def)
  have len: "length ?ids = length new" by simp
  have m: "map fst (zip ?ids new) = ?ids"
    using len by (simp only: map_fst_zip)
  from eq fresh m len show ?thesis by simp
qed

lemma step_decoratedBy:
  assumes "constructedFor m s" and "decoratedBy before m s"
  shows "decoratedBy before m (step s e)"
proof -
  obtain c w where s: "s = (c, w)" by (cases s)
  show ?thesis
  proof (cases e)
    case Dispose
    with assms s show ?thesis
      by (auto simp add: decoratedBy_def settle_def dispose_def disposeAll_def Let_def
          deltaDecorations_clear split: option.splits sum.splits prod.splits)
  next
    case (DiffResult changes)
    show ?thesis
    proof (cases "model c")
      case None
      with assms s DiffResult show ?thesis by (simp add: settle_def onDiff_def)
    next
      case (Some a)
      with assms(1) s have a: "a = m" by (simp add: constructedFor_def)
      from assms(2) s Some obtain ids where
        i: "decorations c = Some ids"
          "take (length before) (modelDecorations (modelOf w m)) = before"
          "map fst (drop (length before) (modelDecorations (modelOf w m))) = ids"
          "list_all (\<lambda>i. i \<notin> set ids) (map fst before)"
        by (auto simp add: decoratedBy_def split: option.splits)
      show ?thesis
      proof (cases "isDisposed (modelOf w m) \<or> baselineModel c = None \<or>
                    (\<exists>b. baselineModel c = Some b \<and> isDisposed (modelOf w b))")
        case True
        then have "onDiff c w changes = (None, c, w)"
          using Some a by (auto simp add: onDiff_def split: option.splits)
        with assms s DiffResult show ?thesis by (simp add: settle_def)
      next
        case False
        then obtain b where b: "\<not> isDisposed (modelOf w m)" "baselineModel c = Some b"
          "\<not> isDisposed (modelOf w b)" by auto
        let ?new = "changesToDecorations
            (case (if getValueLength (modelOf w b) = 0 then Some [] else changes) of
               None \<Rightarrow> [] | Some d \<Rightarrow> d) (\<not> showChangesInGutter w)"
        from deltaDecorations_owned [OF b(1) i(2) i(3) i(4), of ?new]
        obtain ids' M' where
          d: "deltaDecorations (modelOf w m) ids ?new = Inr (ids', M')"
            "take (length before) (modelDecorations M') = before"
            "map fst (drop (length before) (modelDecorations M')) = ids'"
            "list_all (\<lambda>i. i \<notin> set ids') (map fst before)"
          by blast
        have "onDiff c w changes =
            (None, c\<lparr>decorations := Some ids'\<rparr>,
             w\<lparr>modelOf := (modelOf w)(m := M'),
               calls := calls w @ [DeltaDecorations m ids ?new]\<rparr>)"
          using Some a b i(1) d(1) by (simp add: onDiff_def Let_def)
        with s DiffResult Some d(2,3,4) show ?thesis
          by (simp add: settle_def decoratedBy_def)
      qed
    qed
  qed (use assms s in \<open>auto simp add: decoratedBy_def triggerDiff_def getOriginalURIPromise_def
         onOriginalResource_def onModelReference_def onOriginalURISettled_def onOriginalURI_def Let_def
         split: option.splits sum.splits prod.splits\<close>)
qed

lemma run_decoratedBy:
  "constructedFor m s \<Longrightarrow> decoratedBy before m s \<Longrightarrow> decoratedBy before m (run s es)"
  unfolding run_def
proof (induction es arbitrary: s)
  case Nil
  then show ?case by simp
next
  case (Cons e es)
  from Cons.IH [OF step_constructedFor [OF Cons.prems(1)] step_decoratedBy [OF Cons.prems]]
  show ?case by simp
qed

lemma new_decoratedBy:
  "decoratedBy (modelDecorations (modelOf w m)) m (newDirtyDiffModelDecorator m u w)"
  by (simp add: decoratedBy_def newDirtyDiffModelDecorator_def triggerDiff_def Let_def
      newThrottledDelayer_def list_all_iff split: prod.splits)

lemma diff_no_baseline:
  assumes "originalURIPromise c = None"
    and "activeProvider w = None \<or> originalResource r = Inr None"
  shows "\<exists>w1. diff r c w = (Inr (Some []), c, w1) \<and> modelOf w1 = modelOf w \<and>
           showChangesInGutter w1 = showChangesInGutter w \<and> decorationCalls w1 = decorationCalls w"
  using assms
  by (auto simp add: diff_def getOriginalURIPromise_def resolveOriginalURI_def onOriginalResource_def
      onOriginalURISettled_def onOriginalURI_def decorationCalls_def Let_def
      split: option.splits sum.splits prod.splits)

lemma onDiffs_stale:
  "baselineModel c = None \<Longrightarrow> onDiffs n c w changes = (None, c, w)"
  by (induction n) (simp_all add: onDiff_stale)

lemma onDiff_clear:
  assumes "model c = Some m" and "\<not> isDisposed (modelOf w m)"
    and "baselineModel c = Some b" and "\<not> isDisposed (modelOf w b)"
    and "decorations c = Some old"
  shows "onDiff c w (Some []) =
     (None, c\<lparr>decorations := Some []\<rparr>,
      w\<lparr>modelOf := (modelOf w)
           (m := (modelOf w m)
              \<lparr>modelDecorations := filter (\<lambda>(i, d). i \<notin> set old) (modelDecorations (modelOf w m)),
               lastDecorationId := fold max (map fst (modelDecorations (modelOf w m)))
                                     (lastDecorationId (modelOf w m))\<rparr>),
         calls := calls w @ [DeltaDecorations m old []]\<rparr>)"
  using assms
  by (simp add: onDiff_def Let_def changesToDecorations_Nil deltaDecorations_clear)

lemma onDiffs_clear:
  assumes "model c = Some m" and "\<not> isDisposed (modelOf w m)"
    and "baselineModel c = Some b" and "\<not> isDisposed (modelOf w b)"
    and "decorations c = Some old"
  shows "\<exists>c' w'. onDiffs (Suc k) c w (Some []) = (None, c', w') \<and> decorations c' = Some [] \<and>
           modelDecorations (modelOf w' m) =
             filter (\<lambda>(i, d). i \<notin> set old) (modelDecorations (modelOf w m)) \<and>
           calls w' = calls w @ DeltaDecorations m old [] # replicate k (DeltaDecorations m [] [])"
  using assms
proof (induction k arbitrary: c w old)
  case 0
  from onDiff_clear [OF 0] show ?case by simp
next
  case (Suc k)
  let ?M = "(modelOf w m)
              \<lparr>modelDecorations := filter (\<lambda>(i, d). i \<notin> set old) (modelDecorations (modelOf w m)),
               lastDecorationId := fold max (map fst (modelDecorations (modelOf w m)))
                                     (lastDecorationId (modelOf w m))\<rparr>"
  let ?c1 = "c\<lparr>decorations := Some []\<rparr>"
  let ?w1 = "w\<lparr>modelOf := (modelOf w)(m := ?M), calls := calls w @ [DeltaDecorations m old []]\<rparr>"
  have first: "onDiff c w (Some []) = (None, ?c1, ?w1)"
    by (rule onDiff_clear [OF Suc.prems])
  have p: "model ?c1 = Some m" "\<not> isDisposed (modelOf ?w1 m)" "baselineModel ?c1 = Some b"
    "\<not> isDisposed (modelOf ?w1 b)" "decorations ?c1 = Some []"
    using Suc.prems by simp_all
  from Suc.IH [OF p] obtain c' w' where
    ih: "onDiffs (Suc k) ?c1 ?w1 (Some []) = (None, c', w')" "decorations c' = Some []"
      "modelDecorations (modelOf w' m) =
         filter (\<lambda>(i, d). i \<notin> set []) (modelDecorations (modelOf ?w1 m))"
      "calls w' = calls ?w1 @ DeltaDecorations m [] [] # replicate k (DeltaDecorations m [] [])"
    by blast
  have "onDiffs (Suc (Suc k)) c w (Some []) = (None, c', w')"
    using first ih(1) by (simp del: onDiffs.simps add: onDiffs.simps(2) [of "Suc k"])
  moreover have "modelDecorations (modelOf w' m) =
      filter (\<lambda>(i, d). i \<notin> set old) (modelDecorations (modelOf w m))"
    using ih(3) by simp
  moreover have "calls w' =
      calls w @ DeltaDecorations m old [] # replicate (Suc k) (DeltaDecorations m [] [])"
    using ih(4) by simp
  ultimately show ?case using ih(2) by blast
qed

lemma diff_failed:
  assumes "originalURIPromise c = None" and "activeProvider w \<noteq> None"
    and "originalResource r = Inl err \<or>
         ((\<exists>u. originalResource r = Inr (Some u)) \<and> modelReference r = Inl err)"
  shows "\<exists>c' w'. diff r c w = (Inl err, c', w') \<and> decorations c' = decorations c \<and>
           modelOf w' = modelOf w \<and> decorationCalls w' = decorationCalls w \<and>
           originalURIPromise c' = None"
  using assms
  by (auto simp add: diff_def getOriginalURIPromise_def resolveOriginalURI_def onOriginalResource_def
      onOriginalURISettled_def onOriginalURI_def decorationCalls_def Let_def
      split: option.splits sum.splits prod.splits)

lemma exampleLoaded_eval:
  "fst exampleLoaded =
     \<lparr>model = Some 0, uri = ''file:///a.ts'', decorations = Some [1], baselineModel = Some 2,
      diffDelayer = Some \<lparr>defaultDelay = 200, timeout = Some 200, task = Some DiffTask,
                           waiting = 1, started = []\<rparr>,
      originalURIPromise = None,
      toDispose = [ContentSubscription 0, ProviderSubscription, ModelReferenceHandle 2,
                   ContentSubscription 2]\<rparr> \<and>
   activeProvider (snd exampleLoaded) = Some 0 \<and>
   \<not> isDisposed (modelOf (snd exampleLoaded) 0) \<and>
   \<not> isDisposed (modelOf (snd exampleLoaded) 2) \<and>
   modelDecorations (modelOf (snd exampleLoaded) 0) =
     [(1, \<lparr>range' = lineSpan 3 5, options = MODIFIED_DECORATION_OPTIONS\<rparr>)] \<and>
   decorationCalls (snd exampleLoaded) =
     [DeltaDecorations 0 [] [\<lparr>range' = lineSpan 3 5, options = MODIFIED_DECORATION_OPTIONS\<rparr>]]"
  by (simp add: exampleLoaded_def run_def newDirtyDiffModelDecorator_def triggerDiff_def
      newThrottledDelayer_def trigger_def exampleWorld_def exampleModel_def exampleChange_def
      getOriginalURIPromise_def onOriginalResource_def onModelReference_def
      onOriginalURISettled_def onOriginalURI_def onDiff_def settle_def changesToDecorations_def
      changeToDecoration_visible deltaDecorations_def decorationCalls_def Let_def)

text \<open>
  Claim C5, as stated, fails: a rejected resolution skips the completion handler, so
  the markers of the cycle before stay on the buffer. Here a first cycle shows one
  Modified marker, and the next cycle, whose provider fails, ends with that marker
  still on the buffer and with the error as the outcome.
\<close>

theorem failed_resolution_keeps_markers:
  "fst afterFailedCycle = Some Rejected \<and>
   shownDecorations (fst (snd afterFailedCycle)) (modelOf (snd (snd afterFailedCycle)) 0) =
     [(1, \<lparr>range' = lineSpan 3 5, options = MODIFIED_DECORATION_OPTIONS\<rparr>)] \<and>
   modelDecorations (modelOf (snd (snd afterFailedCycle)) 0) =
     [(1, \<lparr>range' = lineSpan 3 5, options = MODIFIED_DECORATION_OPTIONS\<rparr>)]"
  by (simp add: afterFailedCycle_def afterFirstCycle_def failingResponses_def loadingResponses_def
      newDirtyDiffModelDecorator_def triggerDiff_def newThrottledDelayer_def trigger_def
      exampleWorld_def exampleModel_def exampleChange_def diffCycle_def diff_def
      getOriginalURIPromise_def resolveOriginalURI_def onOriginalResource_def onModelReference_def
      onOriginalURISettled_def onOriginalURI_def onDiff_def changesToDecorations_def
      changeToDecoration_visible deltaDecorations_def shownDecorations_def Let_def)

text \<open>
  Claim C5, amended. Take a cycle that starts with no resolution in flight, after any
  history since the constructor, and that serves \<open>n\<close> triggers. When there is no
  active provider or the provider returns null, and the buffer is there and not
  disposed and the baseline buffer, if one was loaded before, is not disposed, the
  cycle ends without an exception, the decorator holds no decoration id, and the
  buffer carries exactly the decorations it carried before the decorator was
  constructed, so none of the decorator's. If a baseline buffer was loaded before,
  that is done through the decoration API, called once per trigger with no new
  decorations; if none was, the API is not called. When the provider's promise or the
  loading of the baseline is rejected, the rejection is the outcome of the cycle, no
  handler runs, the decoration set and the buffers stay as they were, and the cache is
  empty again for the next cycle.
\<close>

theorem diffCycle_without_baseline:
  assumes "run (newDirtyDiffModelDecorator m u w0) es = (c, w)"
    and "originalURIPromise c = None"
  shows "(activeProvider w = None \<or> originalResource r = Inr None \<longrightarrow>
          0 < n \<longrightarrow> model c \<noteq> None \<longrightarrow> \<not> isDisposed (modelOf w m) \<longrightarrow>
          (\<forall>b. baselineModel c = Some b \<longrightarrow> \<not> isDisposed (modelOf w b)) \<longrightarrow>
          (\<exists>c' w'. diffCycle n r c w = (None, c', w') \<and> decorations c' = Some [] \<and>
                    modelDecorations (modelOf w' m) = modelDecorations (modelOf w0 m) \<and>
                    (baselineModel c = None \<longrightarrow> decorationCalls w' = decorationCalls w) \<and>
                    (\<forall>old. baselineModel c \<noteq> None \<and> decorations c = Some old \<longrightarrow>
                       decorationCalls w' =
                         decorationCalls w @
                         DeltaDecorations m old [] # replicate (n - 1) (DeltaDecorations m [] [])))) \<and>
         (activeProvider w \<noteq> None \<longrightarrow>
          originalResource r = Inl err \<or>
            ((\<exists>u. originalResource r = Inr (Some u)) \<and> modelReference r = Inl err) \<longrightarrow>
          (\<exists>c' w'. diffCycle n r c w = (Some err, c', w') \<and> decorations c' = decorations c \<and>
                    modelOf w' = modelOf w \<and> decorationCalls w' = decorationCalls w \<and>
                    originalURIPromise c' = None))"
proof -
  let ?before = "modelDecorations (modelOf w0 m)"
  have inv: "constructedFor m (c, w)"
    using run_constructedFor [OF new_constructedFor, of m u w0 es] assms(1) by simp
  have "decoratedBy ?before m (run (newDirtyDiffModelDecorator m u w0) es)"
    by (rule run_decoratedBy [OF new_constructedFor new_decoratedBy])
  then have own: "decoratedBy ?before m (c, w)"
    using assms(1) by simp
  have A: "\<exists>c' w'. diffCycle n r c w = (None, c', w') \<and> decorations c' = Some [] \<and>
                    modelDecorations (modelOf w' m) = ?before \<and>
                    (baselineModel c = None \<longrightarrow> decorationCalls w' = decorationCalls w) \<and>
                    (\<forall>old. baselineModel c \<noteq> None \<and> decorations c = Some old \<longrightarrow>
                       decorationCalls w' =
                         decorationCalls w @
                         DeltaDecorations m old [] # replicate (n - 1) (DeltaDecorations m [] []))"
    if nb: "activeProvider w = None \<or> originalResource r = Inr None"
      and pos: "0 < n"
      and alive: "model c \<noteq> None" "\<not> isDisposed (modelOf w m)"
        "\<forall>b. baselineModel c = Some b \<longrightarrow> \<not> isDisposed (modelOf w b)"
  proof -
    from diff_no_baseline [OF assms(2) nb] obtain w1 where
      d: "diff r c w = (Inr (Some []), c, w1)" "modelOf w1 = modelOf w"
        "decorationCalls w1 = decorationCalls w" by blast
    from inv alive(1) have m: "model c = Some m"
      "baselineModel c = None \<longrightarrow> decorations c = Some []"
      by (auto simp add: constructedFor_def)
    from own m(1) obtain ids where
      i: "decorations c = Some ids"
        "take (length ?before) (modelDecorations (modelOf w m)) = ?before"
        "map fst (drop (length ?before) (modelDecorations (modelOf w m))) = ids"
        "list_all (\<lambda>i. i \<notin> set ids) (map fst ?before)"
      by (auto simp add: decoratedBy_def split: option.splits)
    have split: "modelDecorations (modelOf w m) =
        ?before @ drop (length ?before) (modelDecorations (modelOf w m))"
      using i(2) by (metis append_take_drop_id)
    obtain k where k: "n = Suc k" using pos by (cases n) auto
    show ?thesis
    proof (cases "baselineModel c")
      case None
      with m(2) i(1) have "ids = []" by simp
      with i(3) have "drop (length ?before) (modelDecorations (modelOf w m)) = []" by simp
      with split have "modelDecorations (modelOf w m) = ?before" by simp
      moreover have "diffCycle n r c w = (None, c, w1)"
        using d(1) onDiffs_stale [OF None] by (simp add: diffCycle_def)
      ultimately show ?thesis using None m(2) d(2,3) by simp
    next
      case (Some b)
      with alive(3) have b: "\<not> isDisposed (modelOf w1 b)" using d(2) by simp
      have a: "\<not> isDisposed (modelOf w1 m)" using alive(2) d(2) by simp
      from onDiffs_clear [OF m(1) a Some b i(1), of k] obtain c' w' where
        o: "onDiffs (Suc k) c w1 (Some []) = (None, c', w')" "decorations c' = Some []"
          "modelDecorations (modelOf w' m) =
             filter (\<lambda>(i, d). i \<notin> set ids) (modelDecorations (modelOf w1 m))"
          "calls w' = calls w1 @ DeltaDecorations m ids [] # replicate k (DeltaDecorations m [] [])"
        by blast
      have f1: "filter (\<lambda>(i, d). i \<notin> set ids) ?before = ?before"
        using i(4) by (auto simp add: list_all_iff filter_id_conv)
      have f2: "filter (\<lambda>(i, d). i \<notin> set ids) (drop (length ?before) (modelDecorations (modelOf w m))) = []"
        using i(3) by (force simp add: filter_empty_conv)
      have "filter (\<lambda>(i, d). i \<notin> set ids) (modelDecorations (modelOf w m)) = ?before"
        by (subst split) (simp only: filter_append f1 f2 append_Nil2)
      with o(3) d(2) have md: "modelDecorations (modelOf w' m) = ?before" by simp
      have dc: "decorationCalls w' =
          decorationCalls w @ DeltaDecorations m ids [] # replicate k (DeltaDecorations m [] [])"
        using o(4) d(3) by (simp add: decorationCalls_def)
      have "diffCycle n r c w = (None, c', w')"
        using d(1) o(1) k by (simp add: diffCycle_def)
      with o(2) md dc Some i(1) k show ?thesis by simp
    qed
  qed
  have B: "\<exists>c' w'. diffCycle n r c w = (Some err, c', w') \<and> decorations c' = decorations c \<and>
                    modelOf w' = modelOf w \<and> decorationCalls w' = decorationCalls w \<and>
                    originalURIPromise c' = None"
    if "activeProvider w \<noteq> None"
      and "originalResource r = Inl err \<or>
            ((\<exists>u. originalResource r = Inr (Some u)) \<and> modelReference r = Inl err)"
    using diff_failed [OF assms(2) that] by (auto simp add: diffCycle_def)
  from A B show ?thesis by blast
qed

theorem diffCycle_without_baseline_witness:
  "modelDecorations (modelOf (snd exampleLoaded) 0) =
     [(1, \<lparr>range' = lineSpan 3 5, options = MODIFIED_DECORATION_OPTIONS\<rparr>)] \<and>
   (\<exists>c' w'. diffCycle 2 nullResponses (fst exampleLoaded) (snd exampleLoaded) = (None, c', w') \<and>
      decorations c' = Some [] \<and> modelDecorations (modelOf w' 0) = [] \<and>
      decorationCalls w' =
        [DeltaDecorations 0 [] [\<lparr>range' = lineSpan 3 5, options = MODIFIED_DECORATION_OPTIONS\<rparr>],
         DeltaDecorations 0 [1] [], DeltaDecorations 0 [] []]) \<and>
   (\<exists>c' w'. diffCycle 2 failingResponses (fst exampleLoaded) (snd exampleLoaded) =
        (Some Rejected, c', w') \<and>
      decorations c' = Some [1] \<and> modelOf w' = modelOf (snd exampleLoaded) \<and>
      originalURIPromise c' = None) \<and>
   (\<exists>c' w'. diffCycle 1 nullResponses
        (fst (newDirtyDiffModelDecorator 0 ''file:///a.ts'' exampleWorld))
        (snd (newDirtyDiffModelDecorator 0 ''file:///a.ts'' exampleWorld)) = (None, c', w') \<and>
      decorations c' = Some [] \<and> decorationCalls w' = [])"
proof -
  have r: "run (newDirtyDiffModelDecorator 0 ''file:///a.ts'' exampleWorld)
       [RunDiff, OriginalResource (Some ''git:/a.ts''), ModelReference 2, OriginalURISettled,
        OriginalURI (Some ''git:/a.ts''), DiffResult (Some [exampleChange])] =
       (fst exampleLoaded, snd exampleLoaded)"
    by (simp add: exampleLoaded_def)
  have p: "originalURIPromise (fst exampleLoaded) = None"
    by (simp add: exampleLoaded_eval)
  have d: "decorations (fst exampleLoaded) = Some [1]" "baselineModel (fst exampleLoaded) \<noteq> None"
    by (simp_all add: exampleLoaded_eval)
  have a: "model (fst exampleLoaded) \<noteq> None" "\<not> isDisposed (modelOf (snd exampleLoaded) 0)"
    "\<forall>b. baselineModel (fst exampleLoaded) = Some b \<longrightarrow> \<not> isDisposed (modelOf (snd exampleLoaded) b)"
    "activeProvider (snd exampleLoaded) \<noteq> None"
    by (simp_all add: exampleLoaded_eval)
  have n: "originalResource nullResponses = Inr None" by (simp add: nullResponses_def)
  have f: "originalResource failingResponses = Inl Rejected" by (simp add: failingResponses_def)
  have b0: "modelDecorations (modelOf exampleWorld 0) = []"
    by (simp add: exampleWorld_def exampleModel_def)
  have two: "(0::nat) < 2" by simp
  from diffCycle_without_baseline [OF r p, of nullResponses 2 Rejected] n a two
  obtain c' w' where
    1: "diffCycle 2 nullResponses (fst exampleLoaded) (snd exampleLoaded) = (None, c', w')"
      "decorations c' = Some []"
      "modelDecorations (modelOf w' 0) = modelDecorations (modelOf exampleWorld 0)"
      "\<forall>old. baselineModel (fst exampleLoaded) \<noteq> None \<and> decorations (fst exampleLoaded) = Some old \<longrightarrow>
         decorationCalls w' =
           decorationCalls (snd exampleLoaded) @
           DeltaDecorations 0 old [] # replicate (2 - 1) (DeltaDecorations 0 [] [])"
    by blast
  from 1(4) d have "decorationCalls w' =
      decorationCalls (snd exampleLoaded) @
      DeltaDecorations 0 [1] [] # replicate (2 - 1) (DeltaDecorations 0 [] [])"
    by blast
  then have dc: "decorationCalls w' =
      [DeltaDecorations 0 [] [\<lparr>range' = lineSpan 3 5, options = MODIFIED_DECORATION_OPTIONS\<rparr>],
       DeltaDecorations 0 [1] [], DeltaDecorations 0 [] []]"
    by (simp add: exampleLoaded_eval)
  from diffCycle_without_baseline [OF r p, of failingResponses 2 Rejected] f a d
  have 2: "\<exists>c' w'. diffCycle 2 failingResponses (fst exampleLoaded) (snd exampleLoaded) =
        (Some Rejected, c', w') \<and>
      decorations c' = Some [1] \<and> modelOf w' = modelOf (snd exampleLoaded) \<and>
      originalURIPromise c' = None"
    by auto
  let ?s0 = "newDirtyDiffModelDecorator 0 ''file:///a.ts'' exampleWorld"
  have r0: "run ?s0 [] = (fst ?s0, snd ?s0)" by (simp add: run_def)
  have p0: "originalURIPromise (fst ?s0) = None" "baselineModel (fst ?s0) = None"
    "model (fst ?s0) \<noteq> None" "\<not> isDisposed (modelOf (snd ?s0) 0)"
    "decorationCalls (snd ?s0) = []"
    by (simp_all add: newDirtyDiffModelDecorator_def triggerDiff_def newThrottledDelayer_def
        trigger_def exampleWorld_def exampleModel_def decorationCalls_def)
  have one: "(0::nat) < 1" by simp
  from diffCycle_without_baseline [OF r0 p0(1), of nullResponses 1 Rejected] n p0 one
  have 3: "\<exists>c' w'. diffCycle 1 nullResponses (fst ?s0) (snd ?s0) = (None, c', w') \<and>
      decorations c' = Some [] \<and> decorationCalls w' = []"
    by auto
  from 1(1,2,3) b0 dc 2 3 exampleLoaded_eval show ?thesis by auto
qed

section \<open>Properties of the tracker\<close>

lemma newDecorator_world: "snd (newDirtyDiffModelDecorator m u w) = w"
  by (simp add: newDirtyDiffModelDecorator_def triggerDiff_def newThrottledDelayer_def Let_def
      split: prod.splits)

lemma newDecorator_fields:
  "model (fst (newDirtyDiffModelDecorator m u w)) = Some m \<and>
   decorations (fst (newDirtyDiffModelDecorator m u w)) = Some [] \<and>
   baselineModel (fst (newDirtyDiffModelDecorator m u w)) = None \<and>
   uri (fst (newDirtyDiffModelDecorator m u w)) = u"
  by (simp add: newDirtyDiffModelDecorator_def triggerDiff_def newThrottledDelayer_def Let_def
      split: prod.splits)

lemma dispose_model_id:
  "dispose c w = (e, c1, w1) \<Longrightarrow> model_id (modelOf w1 x) = model_id (modelOf w x)"
  by (auto simp add: dispose_def disposeAll_def deltaDecorations_def Let_def
      split: option.splits sum.splits prod.splits if_splits)

lemma registryHolds_member:
  assumes "registryHolds ms t wb" and "x \<in> set ms"
  shows "\<exists>r c. registered t wb x = Some r \<and> r < nextDecorator wb \<and> decoratorOf wb r = Some c \<and>
           (model c \<noteq> None \<longrightarrow> decorations c \<noteq> None)"
proof -
  from assms have h: "case registered t wb x of None \<Rightarrow> False
            | Some r \<Rightarrow> r < nextDecorator wb \<and>
                (case decoratorOf wb r of None \<Rightarrow> False
                 | Some c \<Rightarrow> model c \<noteq> None \<longrightarrow> decorations c \<noteq> None)"
    by (simp add: registryHolds_def list_all_iff)
  then obtain r where r: "registered t wb x = Some r" by (cases "registered t wb x") auto
  with h obtain c where "decoratorOf wb r = Some c" by (cases "decoratorOf wb r") auto
  with h r show ?thesis by auto
qed

lemma onModelVisible_step:
  assumes ok: "registryHolds ms t wb"
    and new: "idOf (world wb) m \<notin> idOf (world wb) ` set ms" "m \<notin> set ms"
  shows "\<exists>t' wb'. onModelVisible t wb (m, u) = (None, t', wb') \<and>
           registryHolds (m # ms) t' wb' \<and> models t' = models t \<and> world wb' = world wb \<and>
           nextDecorator wb' = Suc (nextDecorator wb) \<and>
           registered t' wb' m = Some (nextDecorator wb) \<and>
           decoratorOf wb' = (decoratorOf wb)(nextDecorator wb \<mapsto> fst (newDirtyDiffModelDecorator m u (world wb))) \<and>
           (\<forall>x. idOf (world wb) x \<noteq> idOf (world wb) m \<longrightarrow> registered t' wb' x = registered t wb x)"
proof -
  from ok obtain reg where reg: "decorators t = Some reg" by (auto simp add: registryHolds_def)
  let ?c = "fst (newDirtyDiffModelDecorator m u (world wb))"
  let ?t' = "t\<lparr>decorators := Some (reg(idOf (world wb) m \<mapsto> nextDecorator wb))\<rparr>"
  let ?wb' = "wb\<lparr>world := world wb, decoratorOf := (decoratorOf wb)(nextDecorator wb \<mapsto> ?c),
                  nextDecorator := Suc (nextDecorator wb)\<rparr>"
  have eq: "onModelVisible t wb (m, u) = (None, ?t', ?wb')"
    using reg newDecorator_world [of m u "world wb"]
    by (cases "newDirtyDiffModelDecorator m u (world wb)") (simp add: onModelVisible_def Let_def)
  have same: "registered ?t' ?wb' x = registered t wb x" if "idOf (world wb) x \<noteq> idOf (world wb) m" for x
    using that reg by (simp add: registered_def)
  have atm: "registered ?t' ?wb' m = Some (nextDecorator wb)"
    by (simp add: registered_def)
  have old: "registered ?t' ?wb' x = registered t wb x" if "x \<in> set ms" for x
  proof -
    from that new(1) have "idOf (world wb) x \<noteq> idOf (world wb) m" by (metis imageI)
    then show ?thesis by (rule same)
  qed
  have bound: "\<forall>x\<in>set ms. \<exists>r. registered t wb x = Some r \<and> r < nextDecorator wb"
    using registryHolds_member [OF ok] by blast
  have "registryHolds (m # ms) ?t' ?wb'"
    unfolding registryHolds_def
  proof (intro conjI)
    show "decorators ?t' \<noteq> None" by simp
    show "distinct (m # ms)" using ok new by (simp add: registryHolds_def)
    show "list_all (\<lambda>m. case registered ?t' ?wb' m of None \<Rightarrow> False
            | Some r \<Rightarrow> r < nextDecorator ?wb' \<and>
                (case decoratorOf ?wb' r of None \<Rightarrow> False
                 | Some c \<Rightarrow> model c \<noteq> None \<longrightarrow> decorations c \<noteq> None)) (m # ms)"
      unfolding list_all_iff
    proof
      fix x assume x: "x \<in> set (m # ms)"
      show "case registered ?t' ?wb' x of None \<Rightarrow> False
            | Some r \<Rightarrow> r < nextDecorator ?wb' \<and>
                (case decoratorOf ?wb' r of None \<Rightarrow> False
                 | Some c \<Rightarrow> model c \<noteq> None \<longrightarrow> decorations c \<noteq> None)"
      proof (cases "x = m")
        case True
        then show ?thesis using atm newDecorator_fields [of m u "world wb"] by simp
      next
        case False
        with x have xin: "x \<in> set ms" by simp
        from ok xin have "case registered t wb x of None \<Rightarrow> False
            | Some r \<Rightarrow> r < nextDecorator wb \<and>
                (case decoratorOf wb r of None \<Rightarrow> False
                 | Some c \<Rightarrow> model c \<noteq> None \<longrightarrow> decorations c \<noteq> None)"
          by (simp add: registryHolds_def list_all_iff)
        with old [OF xin] show ?thesis by (auto split: option.splits)
      qed
    qed
    have meq: "map (registered ?t' ?wb') ms = map (registered t wb) ms"
      using old by simp
    have notin: "Some (nextDecorator wb) \<notin> set (map (registered t wb) ms)"
      using bound by auto
    have d: "distinct (map (registered t wb) ms)"
      using ok by (simp add: registryHolds_def)
    show "distinct (map (registered ?t' ?wb') (m # ms))"
      by (simp only: list.map distinct.simps meq atm) (use notin d in simp)
  qed
  with eq same atm show ?thesis by auto
qed


lemma registryHolds_ids:
  assumes ok: "registryHolds ms t wb" and "x \<in> set ms" and "y \<in> set ms" and "x \<noteq> y"
  shows "registered t wb x \<noteq> registered t wb y \<and> idOf (world wb) x \<noteq> idOf (world wb) y"
proof -
  from ok have "inj_on (registered t wb) (set ms)"
    by (simp add: registryHolds_def distinct_map)
  with assms(2-4) have ne: "registered t wb x \<noteq> registered t wb y"
    by (auto dest: inj_onD)
  then have "idOf (world wb) x \<noteq> idOf (world wb) y"
    by (auto simp add: registered_def split: option.splits)
  with ne show ?thesis by simp
qed

lemma onModelInvisible_step:
  assumes ok: "registryHolds ms t wb" and mem: "m \<in> set ms"
  shows "\<exists>t' wb' r c c1. onModelInvisible t wb m = (None, t', wb') \<and>
           registered t wb m = Some r \<and> decoratorOf wb r = Some c \<and> disposedDecorator c1 \<and>
           decoratorOf wb' = (decoratorOf wb)(r \<mapsto> c1) \<and>
           nextDecorator wb' = nextDecorator wb \<and> models t' = models t \<and>
           registryHolds (removeAll m ms) t' wb' \<and> registered t' wb' m = None \<and>
           (\<forall>x. idOf (world wb') x = idOf (world wb) x) \<and>
           (\<forall>x. registered t' wb' x =
                  (if idOf (world wb) x = idOf (world wb) m then None else registered t wb x))"
proof -
  from ok obtain reg where reg: "decorators t = Some reg" by (auto simp add: registryHolds_def)
  from registryHolds_member [OF ok mem] obtain r c where
    r: "registered t wb m = Some r" "r < nextDecorator wb" "decoratorOf wb r = Some c"
      "model c \<noteq> None \<longrightarrow> decorations c \<noteq> None" by blast
  from dispose_ok [OF r(4), of "world wb"] obtain c1 w1 where
    d: "dispose c (world wb) = (None, c1, w1)" and dd: "disposedDecorator c1"
    by (auto simp add: disposedDecorator_def)
  have ids: "idOf w1 x = idOf (world wb) x" for x
    by (rule dispose_model_id [OF d])
  let ?t' = "t\<lparr>decorators := Some (reg(idOf w1 m := None))\<rparr>"
  let ?wb' = "wb\<lparr>world := w1, decoratorOf := (decoratorOf wb)(r \<mapsto> c1)\<rparr>"
  have regm: "reg (idOf (world wb) m) = Some r"
    using r(1) reg by (simp add: registered_def)
  have eq: "onModelInvisible t wb m = (None, ?t', ?wb')"
    using reg regm r(3) d by (simp add: onModelInvisible_def)
  have gone: "registered ?t' ?wb' m = None"
    by (simp add: registered_def)
  have same: "registered ?t' ?wb' x = registered t wb x" if "idOf (world wb) x \<noteq> idOf (world wb) m" for x
    using that reg ids by (simp add: registered_def)
  have all: "registered ?t' ?wb' x =
      (if idOf (world wb) x = idOf (world wb) m then None else registered t wb x)" for x
    using reg ids by (simp add: registered_def)
  have old: "registered ?t' ?wb' x = registered t wb x \<and> registered t wb x \<noteq> Some r"
    if "x \<in> set ms" "x \<noteq> m" for x
    using registryHolds_ids [OF ok that(1) mem that(2)] same r(1) by auto
  have "registryHolds (removeAll m ms) ?t' ?wb'"
    unfolding registryHolds_def
  proof (intro conjI)
    show "decorators ?t' \<noteq> None" by simp
    show "distinct (removeAll m ms)" using ok by (simp add: registryHolds_def distinct_removeAll)
    show "list_all (\<lambda>m. case registered ?t' ?wb' m of None \<Rightarrow> False
            | Some r \<Rightarrow> r < nextDecorator ?wb' \<and>
                (case decoratorOf ?wb' r of None \<Rightarrow> False
                 | Some c \<Rightarrow> model c \<noteq> None \<longrightarrow> decorations c \<noteq> None)) (removeAll m ms)"
      unfolding list_all_iff
    proof
      fix x assume "x \<in> set (removeAll m ms)"
      then have x: "x \<in> set ms" "x \<noteq> m" by auto
      from registryHolds_member [OF ok x(1)] old [OF x]
      show "case registered ?t' ?wb' x of None \<Rightarrow> False
            | Some r \<Rightarrow> r < nextDecorator ?wb' \<and>
                (case decoratorOf ?wb' r of None \<Rightarrow> False
                 | Some c \<Rightarrow> model c \<noteq> None \<longrightarrow> decorations c \<noteq> None)"
        by auto
    qed
    have meq: "map (registered ?t' ?wb') (removeAll m ms) = map (registered t wb) (removeAll m ms)"
      using old by simp
    have d: "distinct (map (registered t wb) ms)"
      using ok by (simp add: registryHolds_def)
    have "distinct (map (registered t wb) (removeAll m ms))"
      unfolding removeAll_filter_not_eq by (rule distinct_map_filter [OF d])
    then show "distinct (map (registered ?t' ?wb') (removeAll m ms))"
      by (simp only: meq)
  qed
  with eq r dd gone ids all show ?thesis by auto
qed

lemma forEach_onModelInvisible:
  assumes "registryHolds ms t wb" and "set os \<subseteq> set ms" and "distinct os"
  shows "\<exists>t' wb'. forEach onModelInvisible os t wb = (None, t', wb') \<and>
           registryHolds (filter (\<lambda>x. x \<notin> set os) ms) t' wb' \<and>
           models t' = models t \<and> nextDecorator wb' = nextDecorator wb \<and>
           (\<forall>x. idOf (world wb') x = idOf (world wb) x) \<and>
           (\<forall>x. registered t wb x = None \<longrightarrow> registered t' wb' x = None) \<and>
           (\<forall>x\<in>set os. registered t' wb' x = None \<and>
              (\<exists>r c1. registered t wb x = Some r \<and> decoratorOf wb' r = Some c1 \<and> disposedDecorator c1)) \<and>
           (\<forall>x\<in>set ms - set os. registered t' wb' x = registered t wb x) \<and>
           (\<forall>r. (\<forall>x\<in>set os. registered t wb x \<noteq> Some r) \<longrightarrow> decoratorOf wb' r = decoratorOf wb r)"
  using assms
proof (induction os arbitrary: t wb ms)
  case Nil
  then show ?case by simp
next
  case (Cons m os)
  from Cons.prems have mem: "m \<in> set ms" and rest: "set os \<subseteq> set ms" "distinct os" "m \<notin> set os"
    by auto
  from onModelInvisible_step [OF Cons.prems(1) mem] obtain t1 wb1 r c c1 where
    s: "onModelInvisible t wb m = (None, t1, wb1)" "registered t wb m = Some r"
      "decoratorOf wb r = Some c" "disposedDecorator c1"
      "decoratorOf wb1 = (decoratorOf wb)(r \<mapsto> c1)" "nextDecorator wb1 = nextDecorator wb"
      "models t1 = models t" "registryHolds (removeAll m ms) t1 wb1" "registered t1 wb1 m = None"
      "\<forall>x. idOf (world wb1) x = idOf (world wb) x"
      "\<forall>x. registered t1 wb1 x =
            (if idOf (world wb) x = idOf (world wb) m then None else registered t wb x)"
    by blast
  have keep: "registered t1 wb1 x = registered t wb x \<and> registered t wb x \<noteq> Some r"
    if "x \<in> set ms" "x \<noteq> m" for x
    using registryHolds_ids [OF Cons.prems(1) that(1) mem that(2)] s(2) s(11) by auto
  have sub: "set os \<subseteq> set (removeAll m ms)" using rest by auto
  from Cons.IH [OF s(8) sub rest(2)] obtain t' wb' where
    ih: "forEach onModelInvisible os t1 wb1 = (None, t', wb')"
      "registryHolds (filter (\<lambda>x. x \<notin> set os) (removeAll m ms)) t' wb'"
      "models t' = models t1" "nextDecorator wb' = nextDecorator wb1"
      "\<forall>x. idOf (world wb') x = idOf (world wb1) x"
      "\<forall>x. registered t1 wb1 x = None \<longrightarrow> registered t' wb' x = None"
      "\<forall>x\<in>set os. registered t' wb' x = None \<and>
          (\<exists>r c1. registered t1 wb1 x = Some r \<and> decoratorOf wb' r = Some c1 \<and> disposedDecorator c1)"
      "\<forall>x\<in>set (removeAll m ms) - set os. registered t' wb' x = registered t1 wb1 x"
      "\<forall>r. (\<forall>x\<in>set os. registered t1 wb1 x \<noteq> Some r) \<longrightarrow> decoratorOf wb' r = decoratorOf wb1 r"
    by blast
  have e: "forEach onModelInvisible (m # os) t wb = (None, t', wb')"
    using s(1) ih(1) by simp
  have f: "filter (\<lambda>x. x \<notin> set (m # os)) ms = filter (\<lambda>x. x \<notin> set os) (removeAll m ms)"
    by (induction ms) auto
  have os_keep: "registered t1 wb1 x = registered t wb x \<and> registered t wb x \<noteq> Some r"
    if "x \<in> set os" for x
    using keep [of x] that rest by auto
  have rm: "\<forall>x\<in>set os. registered t1 wb1 x \<noteq> Some r"
    using os_keep by simp
  then have atr: "decoratorOf wb' r = Some c1" using ih(9) s(5) by simp
  have idm: "registered t' wb' m = None" using ih(6) s(9) by simp
  have c1: "registryHolds (filter (\<lambda>x. x \<notin> set (m # os)) ms) t' wb'"
    using ih(2) f by simp
  have c2: "\<forall>x. registered t wb x = None \<longrightarrow> registered t' wb' x = None"
    using ih(6) s(11) by simp
  have c3: "\<forall>x\<in>set (m # os). registered t' wb' x = None \<and>
              (\<exists>r c1. registered t wb x = Some r \<and> decoratorOf wb' r = Some c1 \<and> disposedDecorator c1)"
  proof
    fix x assume "x \<in> set (m # os)"
    then consider "x = m" | "x \<in> set os" by auto
    then show "registered t' wb' x = None \<and>
              (\<exists>r c1. registered t wb x = Some r \<and> decoratorOf wb' r = Some c1 \<and> disposedDecorator c1)"
    proof cases
      case 1
      with idm s(2) atr s(4) show ?thesis by auto
    next
      case 2
      from ih(7) 2 have "registered t' wb' x = None \<and>
          (\<exists>r c1. registered t1 wb1 x = Some r \<and> decoratorOf wb' r = Some c1 \<and> disposedDecorator c1)"
        by (rule bspec)
      with os_keep [OF 2] show ?thesis by metis
    qed
  qed
  have c4: "\<forall>x\<in>set ms - set (m # os). registered t' wb' x = registered t wb x"
  proof
    fix x assume x: "x \<in> set ms - set (m # os)"
    then have "x \<in> set (removeAll m ms) - set os" by auto
    with ih(8) have "registered t' wb' x = registered t1 wb1 x" by blast
    moreover from x keep [of x] have "registered t1 wb1 x = registered t wb x" by auto
    ultimately show "registered t' wb' x = registered t wb x" by simp
  qed
  have c5: "\<forall>r'. (\<forall>x\<in>set (m # os). registered t wb x \<noteq> Some r') \<longrightarrow> decoratorOf wb' r' = decoratorOf wb r'"
  proof (intro allI impI)
    fix r' assume a: "\<forall>x\<in>set (m # os). registered t wb x \<noteq> Some r'"
    then have "r' \<noteq> r" using s(2) by auto
    moreover from a os_keep have "\<forall>x\<in>set os. registered t1 wb1 x \<noteq> Some r'" by auto
    ultimately show "decoratorOf wb' r' = decoratorOf wb r'" using ih(9) s(5) by simp
  qed
  from e c1 c2 c3 c4 c5 ih(3) ih(4) ih(5) s(6) s(7) s(10) show ?case by simp
qed

lemma forEach_onModelVisible:
  assumes "registryHolds ms t wb" and "distinct (map fst ps)" and "fst ` set ps \<inter> set ms = {}"
    and "inj_on (idOf (world wb)) (set ms \<union> fst ` set ps)"
  shows "\<exists>t' wb'. forEach onModelVisible ps t wb = (None, t', wb') \<and>
           registryHolds (rev (map fst ps) @ ms) t' wb' \<and> models t' = models t \<and>
           world wb' = world wb \<and> nextDecorator wb' = nextDecorator wb + length ps \<and>
           (\<forall>r<nextDecorator wb. decoratorOf wb' r = decoratorOf wb r) \<and>
           (\<forall>x\<in>set ms. registered t' wb' x = registered t wb x) \<and>
           (\<forall>p\<in>set ps. \<exists>r. registered t' wb' (fst p) = Some r \<and> nextDecorator wb \<le> r \<and>
              decoratorOf wb' r = Some (fst (newDirtyDiffModelDecorator (fst p) (snd p) (world wb))))"
  using assms
proof (induction ps arbitrary: t wb ms)
  case Nil
  then show ?case by simp
next
  case (Cons p ps)
  obtain m u where p: "p = (m, u)" by (cases p)
  from Cons.prems p have m: "m \<notin> set ms" "m \<notin> fst ` set ps" "distinct (map fst ps)"
    "fst ` set ps \<inter> set ms = {}"
    by auto
  have inj: "inj_on (idOf (world wb)) (insert m (set ms \<union> fst ` set ps))"
    using Cons.prems(4) p by simp
  have idm: "idOf (world wb) x \<noteq> idOf (world wb) m" if "x \<in> set ms" for x
  proof
    assume "idOf (world wb) x = idOf (world wb) m"
    moreover have "x \<in> insert m (set ms \<union> fst ` set ps)" "m \<in> insert m (set ms \<union> fst ` set ps)"
      using that by simp_all
    ultimately have "x = m" using inj by (meson inj_onD)
    with that m(1) show False by simp
  qed
  then have new: "idOf (world wb) m \<notin> idOf (world wb) ` set ms" by force
  from onModelVisible_step [OF Cons.prems(1) new m(1), of u] obtain t1 wb1 where
    s: "onModelVisible t wb (m, u) = (None, t1, wb1)" "registryHolds (m # ms) t1 wb1"
      "models t1 = models t" "world wb1 = world wb" "nextDecorator wb1 = Suc (nextDecorator wb)"
      "registered t1 wb1 m = Some (nextDecorator wb)"
      "decoratorOf wb1 = (decoratorOf wb)(nextDecorator wb \<mapsto> fst (newDirtyDiffModelDecorator m u (world wb)))"
      "\<forall>x. idOf (world wb) x \<noteq> idOf (world wb) m \<longrightarrow> registered t1 wb1 x = registered t wb x"
    by blast
  have disj: "fst ` set ps \<inter> set (m # ms) = {}" using m by auto
  have inj1: "inj_on (idOf (world wb1)) (set (m # ms) \<union> fst ` set ps)"
    using inj s(4) by simp
  from Cons.IH [OF s(2) m(3) disj inj1] obtain t' wb' where
    ih: "forEach onModelVisible ps t1 wb1 = (None, t', wb')"
      "registryHolds (rev (map fst ps) @ m # ms) t' wb'" "models t' = models t1"
      "world wb' = world wb1" "nextDecorator wb' = nextDecorator wb1 + length ps"
      "\<forall>r<nextDecorator wb1. decoratorOf wb' r = decoratorOf wb1 r"
      "\<forall>x\<in>set (m # ms). registered t' wb' x = registered t1 wb1 x"
      "\<forall>p\<in>set ps. \<exists>r. registered t' wb' (fst p) = Some r \<and> nextDecorator wb1 \<le> r \<and>
          decoratorOf wb' r = Some (fst (newDirtyDiffModelDecorator (fst p) (snd p) (world wb1)))"
    by blast
  have e: "forEach onModelVisible (p # ps) t wb = (None, t', wb')"
    using s(1) ih(1) p by simp
  have c1: "registryHolds (rev (map fst (p # ps)) @ ms) t' wb'"
    using ih(2) p by simp
  have c2: "\<forall>r<nextDecorator wb. decoratorOf wb' r = decoratorOf wb r"
    using ih(6) s(5) s(7) by simp
  have c3: "\<forall>x\<in>set ms. registered t' wb' x = registered t wb x"
    using ih(7) s(8) idm by simp
  have c4: "\<forall>q\<in>set (p # ps). \<exists>r. registered t' wb' (fst q) = Some r \<and> nextDecorator wb \<le> r \<and>
              decoratorOf wb' r = Some (fst (newDirtyDiffModelDecorator (fst q) (snd q) (world wb)))"
  proof
    fix q assume "q \<in> set (p # ps)"
    then consider "q = p" | "q \<in> set ps" by auto
    then show "\<exists>r. registered t' wb' (fst q) = Some r \<and> nextDecorator wb \<le> r \<and>
              decoratorOf wb' r = Some (fst (newDirtyDiffModelDecorator (fst q) (snd q) (world wb)))"
    proof cases
      case 1
      have "registered t' wb' m = Some (nextDecorator wb)" using ih(7) s(6) by simp
      moreover have "decoratorOf wb' (nextDecorator wb) =
          Some (fst (newDirtyDiffModelDecorator m u (world wb)))"
        using ih(6) s(5) s(7) by simp
      ultimately show ?thesis using 1 p by simp
    next
      case 2
      from ih(8) 2 have "\<exists>r. registered t' wb' (fst q) = Some r \<and> nextDecorator wb1 \<le> r \<and>
          decoratorOf wb' r = Some (fst (newDirtyDiffModelDecorator (fst q) (snd q) (world wb1)))"
        by (rule bspec)
      then show ?thesis using s(4) s(5) by auto
    qed
  qed
  from e c1 c2 c3 c4 ih(3) ih(4) ih(5) s(3) s(4) s(5) show ?case by simp
qed

lemma registryHolds_set:
  assumes "registryHolds ms t wb" and "set ms' = set ms" and "distinct ms'"
  shows "registryHolds ms' t wb"
proof -
  from assms(1) have "inj_on (registered t wb) (set ms)"
    by (simp add: registryHolds_def distinct_map)
  with assms(2,3) have "distinct (map (registered t wb) ms')"
    by (simp add: distinct_map)
  with assms show ?thesis by (simp add: registryHolds_def list_all_iff)
qed

lemma withoutNullsAndDuplicates_set:
  "set (withoutNullsAndDuplicates w a) \<subseteq> {m. Some m \<in> set a}"
  by (induction w a rule: withoutNullsAndDuplicates.induct) auto

lemma withoutNullsAndDuplicates_distinct: "distinct (withoutNullsAndDuplicates w a)"
proof (induction w a rule: withoutNullsAndDuplicates.induct)
  case (3 w m a)
  then show ?case using withoutNullsAndDuplicates_set [of w a] by auto
qed simp_all

lemma visibleModels_distinct: "distinct (map fst (visibleModels w controls))"
  by (simp add: visibleModels_def comp_def withoutNullsAndDuplicates_distinct)

lemma registered_models [simp]: "registered (t\<lparr>models := x\<rparr>) wb = registered t wb"
  by (rule ext) (simp add: registered_def)

lemma registryHolds_models [simp]:
  "registryHolds ms (t\<lparr>models := x\<rparr>) wb = registryHolds ms t wb"
  by (simp add: registryHolds_def)

lemma tracked_new: "tracked newDirtyDiffDecorator wb"
  by (simp add: tracked_def newDirtyDiffDecorator_def registryHolds_def)

lemma shownAB_eval:
  "fst shownAB = None \<and> models (fst (snd shownAB)) = Some [0, 1] \<and>
   world (snd (snd shownAB)) = world exampleWorkbench \<and>
   nextDecorator (snd (snd shownAB)) = 2 \<and>
   registered (fst (snd shownAB)) (snd (snd shownAB)) 0 = Some 0 \<and>
   registered (fst (snd shownAB)) (snd (snd shownAB)) 1 = Some 1"
  by (simp add: shownAB_def onEditorsChanged_def visibleModels_def exampleWorkbench_def
      exampleWorld_def exampleModel_def newDirtyDiffDecorator_def onModelVisible_def
      newDirtyDiffModelDecorator_def triggerDiff_def newThrottledDelayer_def trigger_def
      registered_def Let_def)

text \<open>
  Claim C7. Between two notifications the registry holds one decorator object for
  every tracked buffer. When the visible buffers change from \<open>previous\<close> to \<open>current\<close>,
  buffers being told apart by reference and their ids being distinct,
  \<open>onEditorsChanged\<close> returns without an exception and tracks \<open>current\<close>; it constructs
  exactly one new decorator object for every buffer of \<open>current - previous\<close> and
  registers it; it disposes the decorator of every buffer of \<open>previous - current\<close> and
  removes its entry; and for every buffer of both sets the entry and the decorator
  object are what they were. No other decorator object changes. With \<open>{A, B}\<close> then
  \<open>{B, C}\<close>: a decorator is constructed for C, the decorator of A is disposed and
  removed, and the decorator of B is the same object in the same state.
\<close>

theorem onEditorsChanged_churn:
  assumes tr: "tracked t wb" and prev: "models t = Some previous"
    and cur: "current = map fst (visibleModels (world wb) controls)"
    and inj: "inj_on (\<lambda>m. model_id (modelOf (world wb) m)) (set previous \<union> set current)"
  shows "\<exists>t' wb'. onEditorsChanged t wb controls = (None, t', wb') \<and>
           models t' = Some current \<and> tracked t' wb' \<and>
           nextDecorator wb' = nextDecorator wb + card (set current - set previous) \<and>
           (\<forall>m\<in>set current - set previous.
              \<exists>r c. registered t' wb' m = Some r \<and> nextDecorator wb \<le> r \<and>
                    decoratorOf wb' r = Some c \<and> model c = Some m \<and> decorations c = Some []) \<and>
           (\<forall>m\<in>set previous - set current.
              registered t' wb' m = None \<and>
              (\<exists>r c1. registered t wb m = Some r \<and> decoratorOf wb' r = Some c1 \<and>
                       disposedDecorator c1)) \<and>
           (\<forall>m\<in>set previous \<inter> set current.
              \<exists>r. registered t wb m = Some r \<and> registered t' wb' m = Some r \<and>
                  decoratorOf wb' r = decoratorOf wb r) \<and>
           (\<forall>r<nextDecorator wb.
              decoratorOf wb' r \<noteq> decoratorOf wb r \<longrightarrow>
              (\<exists>m\<in>set previous - set current. registered t wb m = Some r))"
proof -
  let ?pairs = "visibleModels (world wb) controls"
  define new where "new = filter (\<lambda>p. list_all (\<lambda>m. fst p \<noteq> m) previous) ?pairs"
  define old where "old = filter (\<lambda>m. list_all (\<lambda>p. fst p \<noteq> m) ?pairs) previous"
  let ?n = "nextDecorator wb"
  from tr prev have ok: "registryHolds previous t wb" by (simp add: tracked_def)
  then have dprev: "distinct previous" by (simp add: registryHolds_def)
  have dcur: "distinct current" using cur visibleModels_distinct by simp
  have new_filter: "new = filter (\<lambda>p. fst p \<notin> set previous) ?pairs"
    unfolding new_def by (rule filter_cong) (auto simp add: list_all_iff)
  have new_eq: "map fst new = filter (\<lambda>m. m \<notin> set previous) current"
    by (simp only: new_filter cur filter_map comp_def)
  have old_eq: "old = filter (\<lambda>m. m \<notin> set current) previous"
    unfolding cur old_def by (rule filter_cong) (auto simp add: list_all_iff)
  have snew: "fst ` set new = set current - set previous"
  proof -
    have "fst ` set new = set (map fst new)" by simp
    also have "\<dots> = set (filter (\<lambda>m. m \<notin> set previous) current)" by (simp only: new_eq)
    also have "\<dots> = set current - set previous" by auto
    finally show ?thesis .
  qed
  have sold: "set old = set previous - set current" using old_eq by auto
  have dnew: "distinct (map fst new)" using new_eq dcur by simp
  have dold: "distinct old" using dprev by (simp add: old_def)
  have lnew: "length new = card (set current - set previous)"
  proof -
    have "length new = length (map fst new)" by simp
    also have "\<dots> = card (set (map fst new))" using dnew by (simp only: distinct_card)
    also have "\<dots> = card (set current - set previous)" using snew by simp
    finally show ?thesis .
  qed
  have disj: "fst ` set new \<inter> set previous = {}" using snew by auto
  have inj1: "inj_on (\<lambda>m. model_id (modelOf (world wb) m)) (set previous \<union> fst ` set new)"
    by (rule inj_on_subset [OF inj]) (use snew in auto)
  from forEach_onModelVisible [OF ok dnew disj inj1] obtain t1 wb1 where
    v: "forEach onModelVisible new t wb = (None, t1, wb1)"
      "registryHolds (rev (map fst new) @ previous) t1 wb1" "models t1 = models t"
      "world wb1 = world wb" "nextDecorator wb1 = ?n + length new"
      "\<forall>r<?n. decoratorOf wb1 r = decoratorOf wb r"
      "\<forall>x\<in>set previous. registered t1 wb1 x = registered t wb x"
      "\<forall>p\<in>set new. \<exists>r. registered t1 wb1 (fst p) = Some r \<and> ?n \<le> r \<and>
          decoratorOf wb1 r = Some (fst (newDirtyDiffModelDecorator (fst p) (snd p) (world wb)))"
    by blast
  have sub: "set old \<subseteq> set (rev (map fst new) @ previous)" using sold by auto
  from forEach_onModelInvisible [OF v(2) sub dold] obtain t2 wb2 where
    i: "forEach onModelInvisible old t1 wb1 = (None, t2, wb2)"
      "registryHolds (filter (\<lambda>x. x \<notin> set old) (rev (map fst new) @ previous)) t2 wb2"
      "models t2 = models t1" "nextDecorator wb2 = nextDecorator wb1"
      "\<forall>x. idOf (world wb2) x = idOf (world wb1) x"
      "\<forall>x. registered t1 wb1 x = None \<longrightarrow> registered t2 wb2 x = None"
      "\<forall>x\<in>set old. registered t2 wb2 x = None \<and>
          (\<exists>r c1. registered t1 wb1 x = Some r \<and> decoratorOf wb2 r = Some c1 \<and> disposedDecorator c1)"
      "\<forall>x\<in>set (rev (map fst new) @ previous) - set old. registered t2 wb2 x = registered t1 wb1 x"
      "\<forall>r. (\<forall>x\<in>set old. registered t1 wb1 x \<noteq> Some r) \<longrightarrow> decoratorOf wb2 r = decoratorOf wb1 r"
    by blast
  let ?t' = "t2\<lparr>models := Some (map fst ?pairs)\<rparr>"
  have e: "onEditorsChanged t wb controls = (None, ?t', wb2)"
    using prev v(1) i(1) by (simp add: onEditorsChanged_def Let_def new_def old_def)
  have oldreg: "\<exists>r. registered t wb x = Some r \<and> r < ?n" if "x \<in> set previous" for x
    using registryHolds_member [OF ok that] by blast
  have oldkeep: "registered t1 wb1 x = registered t wb x" if "x \<in> set previous" for x
    using v(7) that by simp
  have cset: "set (filter (\<lambda>x. x \<notin> set old) (rev (map fst new) @ previous)) = set current"
    using snew sold by auto
  have c_tr: "tracked ?t' wb2"
    using registryHolds_set [OF i(2) _ dcur] cset cur by (simp add: tracked_def)
  have c_next: "nextDecorator wb2 = ?n + card (set current - set previous)"
    using i(4) v(5) lnew by simp
  have c_new: "\<forall>m\<in>set current - set previous.
      \<exists>r c. registered ?t' wb2 m = Some r \<and> ?n \<le> r \<and>
            decoratorOf wb2 r = Some c \<and> model c = Some m \<and> decorations c = Some []"
  proof
    fix m assume m: "m \<in> set current - set previous"
    with snew have "m \<in> fst ` set new" by (simp only:)
    then obtain p where p: "p \<in> set new" "fst p = m" by blast
    from v(8) p(1) have "\<exists>r. registered t1 wb1 (fst p) = Some r \<and> ?n \<le> r \<and>
          decoratorOf wb1 r = Some (fst (newDirtyDiffModelDecorator (fst p) (snd p) (world wb)))"
      by (rule bspec)
    then obtain r where r: "registered t1 wb1 m = Some r" "?n \<le> r"
      "decoratorOf wb1 r = Some (fst (newDirtyDiffModelDecorator m (snd p) (world wb)))"
      using p(2) by auto
    have "m \<in> set (rev (map fst new) @ previous) - set old" using m p sold by auto
    with i(8) have a: "registered t2 wb2 m = registered t1 wb1 m" by blast
    have "\<forall>x\<in>set old. registered t1 wb1 x \<noteq> Some r"
    proof
      fix x assume "x \<in> set old"
      then have x: "x \<in> set previous" using sold by simp
      from oldreg [OF x] oldkeep [OF x] r(2) show "registered t1 wb1 x \<noteq> Some r" by auto
    qed
    with i(9) have b: "decoratorOf wb2 r = decoratorOf wb1 r" by simp
    from a b r newDecorator_fields [of m "snd p" "world wb"]
    show "\<exists>r c. registered ?t' wb2 m = Some r \<and> ?n \<le> r \<and>
            decoratorOf wb2 r = Some c \<and> model c = Some m \<and> decorations c = Some []"
      by simp
  qed
  have c_old: "\<forall>m\<in>set previous - set current.
      registered ?t' wb2 m = None \<and>
      (\<exists>r c1. registered t wb m = Some r \<and> decoratorOf wb2 r = Some c1 \<and> disposedDecorator c1)"
  proof
    fix m assume m: "m \<in> set previous - set current"
    then have "m \<in> set old" using sold by simp
    with i(7) have "registered t2 wb2 m = None \<and>
          (\<exists>r c1. registered t1 wb1 m = Some r \<and> decoratorOf wb2 r = Some c1 \<and> disposedDecorator c1)"
      by (rule bspec)
    moreover from m have "registered t1 wb1 m = registered t wb m" using oldkeep by simp
    ultimately show "registered ?t' wb2 m = None \<and>
      (\<exists>r c1. registered t wb m = Some r \<and> decoratorOf wb2 r = Some c1 \<and> disposedDecorator c1)"
      by simp
  qed
  have c_kept: "\<forall>m\<in>set previous \<inter> set current.
      \<exists>r. registered t wb m = Some r \<and> registered ?t' wb2 m = Some r \<and>
          decoratorOf wb2 r = decoratorOf wb r"
  proof
    fix m assume m: "m \<in> set previous \<inter> set current"
    then have mp: "m \<in> set previous" by simp
    from oldreg [OF mp] obtain r where r: "registered t wb m = Some r" "r < ?n" by blast
    have "m \<in> set (rev (map fst new) @ previous) - set old" using m sold by auto
    with i(8) have "registered t2 wb2 m = registered t1 wb1 m" by blast
    with oldkeep [OF mp] r have a: "registered ?t' wb2 m = Some r" by simp
    have "\<forall>x\<in>set old. registered t1 wb1 x \<noteq> Some r"
    proof
      fix x assume xo: "x \<in> set old"
      then have x: "x \<in> set previous" "x \<noteq> m" using m sold by auto
      from registryHolds_ids [OF ok x(1) mp x(2)] oldkeep [OF x(1)] r(1)
      show "registered t1 wb1 x \<noteq> Some r" by simp
    qed
    with i(9) v(6) r(2) have "decoratorOf wb2 r = decoratorOf wb r" by simp
    with r(1) a show "\<exists>r. registered t wb m = Some r \<and> registered ?t' wb2 m = Some r \<and>
          decoratorOf wb2 r = decoratorOf wb r" by simp
  qed
  have c_frame: "\<forall>r<?n. decoratorOf wb2 r \<noteq> decoratorOf wb r \<longrightarrow>
      (\<exists>m\<in>set previous - set current. registered t wb m = Some r)"
  proof (intro allI impI)
    fix r assume r: "r < ?n" "decoratorOf wb2 r \<noteq> decoratorOf wb r"
    with v(6) have "decoratorOf wb2 r \<noteq> decoratorOf wb1 r" by simp
    with i(9) obtain x where x: "x \<in> set old" "registered t1 wb1 x = Some r" by blast
    then have "x \<in> set previous - set current" using sold by simp
    moreover with x(2) oldkeep have "registered t wb x = Some r" by simp
    ultimately show "\<exists>m\<in>set previous - set current. registered t wb m = Some r" by blast
  qed
  from e c_tr c_next c_new c_old c_kept c_frame cur show ?thesis by simp
qed

theorem onEditorsChanged_churn_witness:
  "fst shownBC = None \<and>
   models (fst (snd shownBC)) = Some [1, 2] \<and>
   nextDecorator (snd (snd shownBC)) = 3 \<and>
   (\<exists>r c. registered (fst (snd shownBC)) (snd (snd shownBC)) 2 = Some r \<and> 2 \<le> r \<and>
      decoratorOf (snd (snd shownBC)) r = Some c \<and> model c = Some 2 \<and> decorations c = Some []) \<and>
   registered (fst (snd shownBC)) (snd (snd shownBC)) 0 = None \<and>
   (\<exists>c1. decoratorOf (snd (snd shownBC)) 0 = Some c1 \<and> disposedDecorator c1) \<and>
   registered (fst (snd shownBC)) (snd (snd shownBC)) 1 = Some 1 \<and>
   decoratorOf (snd (snd shownBC)) 1 = decoratorOf (snd (snd shownAB)) 1"
proof -
  let ?t0 = newDirtyDiffDecorator and ?wb0 = exampleWorkbench
  let ?t1 = "fst (snd shownAB)" and ?wb1 = "snd (snd shownAB)"
  let ?t2 = "fst (snd shownBC)" and ?wb2 = "snd (snd shownBC)"
  have m0: "models ?t0 = Some []" by (simp add: newDirtyDiffDecorator_def)
  have cur1: "[0, 1] = map fst (visibleModels (world ?wb0) [CodeEditor (Some 0), CodeEditor (Some 1)])"
    by (simp add: visibleModels_def exampleWorkbench_def exampleWorld_def exampleModel_def)
  have inj1: "inj_on (\<lambda>m. model_id (modelOf (world ?wb0) m)) (set [] \<union> set [0, 1])"
    by (simp add: exampleWorkbench_def exampleWorld_def exampleModel_def)
  from onEditorsChanged_churn [OF tracked_new m0 cur1 inj1]
  have tr1: "tracked ?t1 ?wb1" by (auto simp add: shownAB_def)
  have m1: "models ?t1 = Some [0, 1]" using shownAB_eval by simp
  have w1: "world ?wb1 = world ?wb0" using shownAB_eval by simp
  have cur2: "[1, 2] = map fst (visibleModels (world ?wb1)
      [CodeEditor (Some 1), OtherControl, CodeEditor None, CodeEditor (Some 2)])"
    by (simp add: w1 visibleModels_def exampleWorkbench_def exampleWorld_def exampleModel_def)
  have inj2: "inj_on (\<lambda>m. model_id (modelOf (world ?wb1) m)) (set [0, 1] \<union> set [1, 2])"
    by (simp add: w1 exampleWorkbench_def exampleWorld_def exampleModel_def insert_Diff_if)
  have c: "card (set [1, 2] - set [0, 1::nat]) = 1" by (simp add: insert_Diff_if)
  from onEditorsChanged_churn [OF tr1 m1 cur2 inj2] c shownAB_eval
  show ?thesis by (auto simp add: shownBC_def insert_Diff_if)
qed

section \<open>Properties of the throttle\<close>





































end
